theory Spec2Isabelle
  imports Main "HOL-Library.Sublist"
begin

section \<open>Text and characters\<close>

text \<open>
  Both scripts work on the text of one keymap file, a Python \<^verbatim>\<open>str\<close>, modelled as a
  \<^typ>\<open>string\<close>. Every pattern of \<^verbatim>\<open>format_keymap.py\<close> is made of ASCII characters
  (\<^verbatim>\<open>bindings = <\<close>, \<^verbatim>\<open>[^>]\<close>, \<^verbatim>\<open>&[a-zA-Z0-9_]+\<close>) and the only lengths it counts are
  those of tokens, which are ASCII: what it does to a text does not depend on how the
  characters beyond ASCII are represented. \<^verbatim>\<open>validate_keymap.py\<close> uses \<^verbatim>\<open>\w\<close> and \<^verbatim>\<open>\s\<close>,
  which look at such characters; their classification is a parameter there.
\<close>

abbreviation backslash :: char where
  "backslash \<equiv> CHR 0x5C"

abbreviation newline :: char where
  "newline \<equiv> CHR 0x0A"

section \<open>The grid formatter: \<^verbatim>\<open>scripts/format_keymap.py\<close>\<close>

subsection \<open>Token extraction: \<^verbatim>\<open>re.findall(r'&[a-zA-Z0-9_]+', bindings)\<close>\<close>

text \<open>The character class \<^verbatim>\<open>[a-zA-Z0-9_]\<close>, by code point.\<close>

definition ident_char :: "char \<Rightarrow> bool" where
  "ident_char c =
     (let n = (of_char c :: nat)
      in (97 \<le> n \<and> n \<le> 122) \<or> (65 \<le> n \<and> n \<le> 90) \<or> (48 \<le> n \<and> n \<le> 57) \<or> n = 95)"

text \<open>
  One attempt to match \<^verbatim>\<open>&[a-zA-Z0-9_]+\<close> at the start of a text: the matched token
  and the text after it. The \<^verbatim>\<open>+\<close> is greedy and nothing follows it in the pattern,
  so the match takes the whole run of identifier characters.
\<close>

definition match_token :: "string \<Rightarrow> (string \<times> string) option" where
  "match_token s =
     (case s of
        [] \<Rightarrow> None
      | c # cs \<Rightarrow>
          if c = CHR ''&'' \<and> takeWhile ident_char cs \<noteq> []
          then Some (c # takeWhile ident_char cs, dropWhile ident_char cs)
          else None)"

text \<open>
  \<^verbatim>\<open>re.findall\<close>: the matches from left to right, without overlap. Where the pattern
  does not match, the scan moves on by one character; after a match it goes on behind it.
\<close>

function findall_tokens :: "string \<Rightarrow> string list" where
  "findall_tokens [] = []"
| "findall_tokens (c # cs) =
     (case match_token (c # cs) of
        Some (tok, rest) \<Rightarrow> tok # findall_tokens rest
      | None \<Rightarrow> findall_tokens cs)"
  by pat_completeness auto
termination
  by (relation "measure length")
     (auto simp: match_token_def less_Suc_eq_le length_dropWhile_le split: if_splits)

subsection \<open>The grid: \<^verbatim>\<open>format_bindings\<close>\<close>

text \<open>\<^verbatim>\<open>f'{binding:12}'\<close>: a string is left-justified in a field of at least 12
  characters, filled with spaces, and never cut.\<close>

definition ljust :: "nat \<Rightarrow> string \<Rightarrow> string" where
  "ljust width s = s @ replicate (width - length s) (CHR '' '')"

text \<open>\<^verbatim>\<open>sep.join(parts)\<close>.\<close>

fun join :: "string \<Rightarrow> string list \<Rightarrow> string" where
  "join sep [] = []"
| "join sep [x] = x"
| "join sep (x # y # ys) = x @ sep @ join sep (y # ys)"

text \<open>The slice \<^verbatim>\<open>xs[i:j]\<close> for \<open>0 \<le> i \<le> j\<close>; it never raises.\<close>

definition slice :: "'a list \<Rightarrow> nat \<Rightarrow> nat \<Rightarrow> 'a list" where
  "slice xs i j = take (j - i) (drop i xs)"

definition columns :: nat where
  "columns = 10"

text \<open>
  The loop \<^verbatim>\<open>for i in range(0, len(bindings_list), columns)\<close>, with the list
  \<^verbatim>\<open>formatted\<close> it appends to as an accumulator.
\<close>

function grid_loop :: "string list \<Rightarrow> nat \<Rightarrow> string list \<Rightarrow> string list" where
  "grid_loop bindings_list i formatted =
     (if i < length bindings_list
      then grid_loop bindings_list (i + columns)
             (formatted @ [join '' '' (map (ljust 12) (slice bindings_list i (i + columns)))])
      else formatted)"
  by pat_completeness auto
termination
  by (relation "measure (\<lambda>(bl, i, formatted). length bl - i)") (auto simp: columns_def)

declare grid_loop.simps [simp del]

text \<open>The continuation between rows, \<^verbatim>\<open>'\\\n        '\<close>: a backslash, a newline and
  eight spaces.\<close>

definition row_sep :: string where
  "row_sep = backslash # newline # ''        ''"

definition format_bindings :: "string \<Rightarrow> string" where
  "format_bindings bindings =
     (let bindings_list = findall_tokens bindings;
          formatted = grid_loop bindings_list 0 []
      in ''bindings = <'' @ row_sep @ join row_sep formatted @ backslash # newline # ''    >'')"

subsection \<open>Substitution: \<^verbatim>\<open>re.sub(r'bindings = <([^>]+)>', format_bindings, content)\<close>\<close>

text \<open>
  One attempt to match \<^verbatim>\<open>bindings = <([^>]+)>\<close> at the start of a text: group 1 and the
  text after the match. \<^verbatim>\<open>[^>]+\<close> is greedy and takes every character up to the first
  \<^verbatim>\<open>>\<close>; a shorter run would be followed by a character other than \<^verbatim>\<open>>\<close>, so
  backtracking finds nothing more. The class \<^verbatim>\<open>[^>]\<close> matches a newline too.
\<close>

definition match_block :: "string \<Rightarrow> (string \<times> string) option" where
  "match_block s =
     (if prefix ''bindings = <'' s
      then let t = drop 12 s;
               body = takeWhile (\<lambda>c. c \<noteq> CHR ''>'') t;
               rest = dropWhile (\<lambda>c. c \<noteq> CHR ''>'') t
           in if body \<noteq> [] \<and> rest \<noteq> [] then Some (body, tl rest) else None
      else None)"

text \<open>
  \<^verbatim>\<open>re.sub\<close> with a function as replacement: the text is scanned from the left; where
  the pattern matches, the function's result for group 1 is emitted as it is and the scan
  goes on behind the match; elsewhere the character is copied.
\<close>

function re_sub_block :: "(string \<Rightarrow> string) \<Rightarrow> string \<Rightarrow> string" where
  "re_sub_block repl [] = []"
| "re_sub_block repl (c # cs) =
     (case match_block (c # cs) of
        Some (body, rest) \<Rightarrow> repl body @ re_sub_block repl rest
      | None \<Rightarrow> c # re_sub_block repl cs)"
  by pat_completeness auto
termination
proof (relation "measure (\<lambda>(repl, s). length s)")
  show "wf (measure (\<lambda>(repl, s). length s))" by simp
next
  fix repl :: "string \<Rightarrow> string" and c cs x2 body rest
  assume m: "match_block (c # cs) = Some x2" and x2: "(body, rest) = x2"
  let ?t = "drop 12 (c # cs)"
  from m x2 have "rest = tl (dropWhile (\<lambda>c. c \<noteq> CHR ''>'') ?t)"
    by (auto simp: match_block_def Let_def split: if_splits)
  moreover have "length (dropWhile (\<lambda>c. c \<noteq> CHR ''>'') ?t) \<le> length ?t"
    by (rule length_dropWhile_le)
  ultimately have "length rest < Suc (length cs)"
    by simp
  then show "((repl, rest), (repl, c # cs)) \<in> measure (\<lambda>(repl, s). length s)"
    by simp
next
  fix repl :: "string \<Rightarrow> string" and c cs
  show "((repl, cs), (repl, c # cs)) \<in> measure (\<lambda>(repl, s). length s)"
    by simp
qed

definition format_keymap_bindings :: "string \<Rightarrow> string" where
  "format_keymap_bindings content = re_sub_block format_bindings content"

section \<open>The syntax validator: \<^verbatim>\<open>scripts/validate_keymap.py\<close>\<close>

subsection \<open>The substring test \<^verbatim>\<open>sub in content\<close>\<close>

fun contains :: "string \<Rightarrow> string \<Rightarrow> bool" where
  "contains sub [] = (sub = [])"
| "contains sub (c # cs) = (prefix sub (c # cs) \<or> contains sub cs)"

subsection \<open>The layer pattern: \<^verbatim>\<open>re.findall(r'\w+_layer\s*\{', content)\<close>\<close>

text \<open>
  In a pattern on \<^verbatim>\<open>str\<close>, \<^verbatim>\<open>\w\<close> and \<^verbatim>\<open>\s\<close> follow Unicode. On ASCII they are fixed:
  \<^verbatim>\<open>\w\<close> is \<^verbatim>\<open>[a-zA-Z0-9_]\<close>, and \<^verbatim>\<open>\s\<close> is tab, newline, vertical tab, form feed, carriage
  return, the four separators \<^verbatim>\<open>0x1c\<close> to \<^verbatim>\<open>0x1f\<close> and the space. Beyond ASCII they are read
  from the Unicode tables of Python, which are no part of this repository: the two
  parameters \<open>uni_word\<close> and \<open>uni_space\<close> stand for them, and every result holds whatever
  they are.
\<close>

definition word_char :: "(char \<Rightarrow> bool) \<Rightarrow> char \<Rightarrow> bool" where
  "word_char uni_word c = (if (of_char c :: nat) < 128 then ident_char c else uni_word c)"

definition space_char :: "(char \<Rightarrow> bool) \<Rightarrow> char \<Rightarrow> bool" where
  "space_char uni_space c =
     (let n = (of_char c :: nat)
      in if n < 128 then (9 \<le> n \<and> n \<le> 13) \<or> (28 \<le> n \<and> n \<le> 32) else uni_space c)"

text \<open>
  \<^verbatim>\<open>_layer\s*\{\<close> at the start of a text: the number of characters matched. \<^verbatim>\<open>\s*\<close> is
  greedy and takes the whole run of white space; a shorter run would be followed by white
  space, never by \<^verbatim>\<open>{\<close>, so backtracking into it finds nothing more.
\<close>

definition match_layer_tail :: "(char \<Rightarrow> bool) \<Rightarrow> string \<Rightarrow> nat option" where
  "match_layer_tail uni_space t =
     (if prefix ''_layer'' t
      then (case dropWhile (space_char uni_space) (drop 6 t) of
              [] \<Rightarrow> None
            | c # rest \<Rightarrow>
                if c = CHR ''{''
                then Some (6 + length (takeWhile (space_char uni_space) (drop 6 t)) + 1)
                else None)
      else None)"

text \<open>
  \<^verbatim>\<open>\w+\<close> is greedy too, and here backtracking matters: the characters of \<^verbatim>\<open>_layer\<close> are
  word characters, so the longest run swallows them. The matcher gives characters back one
  at a time, down to a run of one, and takes the first length \<open>k\<close> after which the rest of
  the pattern matches.
\<close>

fun backtrack_word :: "(char \<Rightarrow> bool) \<Rightarrow> string \<Rightarrow> nat \<Rightarrow> nat option" where
  "backtrack_word uni_space s 0 = None"
| "backtrack_word uni_space s (Suc k) =
     (case match_layer_tail uni_space (drop (Suc k) s) of
        Some n \<Rightarrow> Some (Suc k + n)
      | None \<Rightarrow> backtrack_word uni_space s k)"

text \<open>One attempt to match the whole pattern at the start of a text: the length of the
  match.\<close>

definition match_layer :: "(char \<Rightarrow> bool) \<Rightarrow> (char \<Rightarrow> bool) \<Rightarrow> string \<Rightarrow> nat option" where
  "match_layer uni_word uni_space s =
     backtrack_word uni_space s (length (takeWhile (word_char uni_word) s))"

lemma backtrack_word_pos: "backtrack_word uni_space s k = Some n \<Longrightarrow> 0 < n"
  by (induction k) (auto split: option.splits)

function findall_layers :: "(char \<Rightarrow> bool) \<Rightarrow> (char \<Rightarrow> bool) \<Rightarrow> string \<Rightarrow> string list" where
  "findall_layers uni_word uni_space [] = []"
| "findall_layers uni_word uni_space (c # cs) =
     (case match_layer uni_word uni_space (c # cs) of
        Some n \<Rightarrow> take n (c # cs) # findall_layers uni_word uni_space (drop n (c # cs))
      | None \<Rightarrow> findall_layers uni_word uni_space cs)"
  by pat_completeness auto
termination
  by (relation "measure (\<lambda>(uni_word, uni_space, s). length s)")
     (auto simp: match_layer_def dest!: backtrack_word_pos)

subsection \<open>\<^verbatim>\<open>validate_keymap_syntax\<close> and the script\<close>

text \<open>
  The file system as \<^verbatim>\<open>open(path, 'r')\<close> and \<^verbatim>\<open>read()\<close> see it: for each path either the
  text of the file, or the message \<^verbatim>\<open>str(e)\<close> of the exception they raise (an
  \<^verbatim>\<open>OSError\<close>, a \<^verbatim>\<open>UnicodeDecodeError\<close>: all are caught by \<^verbatim>\<open>except Exception\<close>).
\<close>

type_synonym path = string

type_synonym file_system = "path \<Rightarrow> string + string"

text \<open>The list \<^verbatim>\<open>errors\<close> is threaded through the four \<^verbatim>\<open>if\<close> statements; the read
  failure returns from the handler before any of them.\<close>

definition validate_keymap_syntax ::
    "(char \<Rightarrow> bool) \<Rightarrow> (char \<Rightarrow> bool) \<Rightarrow> file_system \<Rightarrow> path \<Rightarrow> string list" where
  "validate_keymap_syntax uni_word uni_space fs keymap_file =
     (case fs keymap_file of
        Inl e \<Rightarrow> [''Error reading file: '' @ e]
      | Inr content \<Rightarrow>
          let errors = [];
              errors = (if \<not> contains ''#include <behaviors.dtsi>'' content
                        then errors @ [''Missing required include: #include <behaviors.dtsi>'']
                        else errors);
              errors = (if \<not> contains ''#include <dt-bindings/zmk/keys.h>'' content
                        then errors @ [''Missing required include: #include <dt-bindings/zmk/keys.h>'']
                        else errors);
              errors = (if \<not> contains (''compatible = '' @ CHR 0x22 # ''zmk,keymap'' @ [CHR 0x22]) content
                        then errors @ [''Missing keymap node with compatible property'']
                        else errors);
              layer_count = length (findall_layers uni_word uni_space content);
              errors = (if layer_count = 0
                        then errors @ [''No layers found in keymap'']
                        else errors)
          in errors)"

text \<open>
  The script: what it prints, one element for each \<^verbatim>\<open>print\<close>, and its exit status
  (\<^verbatim>\<open>sys.exit(1)\<close> after the usage line, 0 when it runs to its end). \<open>argv\<close> is
  \<^verbatim>\<open>sys.argv\<close>, the script's name first.
\<close>

definition validate_main ::
    "(char \<Rightarrow> bool) \<Rightarrow> (char \<Rightarrow> bool) \<Rightarrow> file_system \<Rightarrow> string list \<Rightarrow> string list \<times> nat" where
  "validate_main uni_word uni_space fs argv =
     (if length argv < 2
      then ([''Usage: python validate_keymap.py <keymap_file>''], 1)
      else let keymap_file = argv ! 1;
               errors = validate_keymap_syntax uni_word uni_space fs keymap_file
           in if errors \<noteq> []
              then (''Errors found:'' # map (\<lambda>error. ''  - '' @ error) errors, 0)
              else ([''Keymap validation passed!''], 0))"

section \<open>The formatter's script: \<^verbatim>\<open>format_with_clang_and_grid\<close>\<close>

text \<open>
  What \<^verbatim>\<open>subprocess.Popen(['clang-format'], ...)\<close> and \<^verbatim>\<open>communicate\<close> can do with the text
  they are given: raise \<^verbatim>\<open>FileNotFoundError\<close> (no such program), raise another exception
  (its message is kept), or run the program to its end, with its exit status and its
  standard output. The standard error is read and never used.
\<close>

datatype popen_result =
    Not_Found
  | Popen_Raised string
  | Exited int string

text \<open>
  How writing the text back can fail: \<^verbatim>\<open>open(path, 'w')\<close> raises, and the file is as it
  was; or \<^verbatim>\<open>open\<close> has emptied the file and \<^verbatim>\<open>write\<close> (or the closing of the file) raises
  after some number of characters, none maybe, has reached it. Both carry the message of
  the exception.
\<close>

datatype write_failure =
    Open_Raised string
  | Write_Raised string nat

text \<open>
  The world of the script: the file system as reading sees it (see \<^typ>\<open>file_system\<close>),
  for each path the way writing fails there, if it does, the external formatter as a
  function of its input, and the lines printed so far.
\<close>

record world =
  files :: file_system
  write_error :: "path \<Rightarrow> write_failure option"
  clang_format :: "string \<Rightarrow> popen_result"
  stdout :: "string list"

definition print :: "string \<Rightarrow> world \<Rightarrow> world" where
  "print line w = w\<lparr>stdout := stdout w @ [line]\<rparr>"

text \<open>The handler of the outer \<^verbatim>\<open>try\<close>: \<^verbatim>\<open>print(f"Error formatting {file_path}: {e}")\<close>.\<close>

definition report_error :: "path \<Rightarrow> string \<Rightarrow> world \<Rightarrow> world" where
  "report_error file_path e w = print (''Error formatting '' @ file_path @ '': '' @ e) w"

text \<open>The end of the function: write the text back, then print the confirmation.\<close>

definition write_back :: "path \<Rightarrow> string \<Rightarrow> world \<Rightarrow> world" where
  "write_back file_path formatted_content w =
     (case write_error w file_path of
        Some (Open_Raised e) \<Rightarrow> report_error file_path e w
      | Some (Write_Raised e n) \<Rightarrow>
          report_error file_path e
            (w\<lparr>files := (files w)(file_path := Inr (take n formatted_content))\<rparr>)
      | None \<Rightarrow>
          print (''Formatted '' @ file_path)
            (w\<lparr>files := (files w)(file_path := Inr formatted_content)\<rparr>))"

definition format_with_clang_and_grid :: "world \<Rightarrow> path \<Rightarrow> world" where
  "format_with_clang_and_grid w file_path =
     (case files w file_path of
        Inl e \<Rightarrow> report_error file_path e w
      | Inr content \<Rightarrow>
          let formatted_content = format_keymap_bindings content
          in case clang_format w formatted_content of
               Exited returncode out \<Rightarrow>
                 write_back file_path
                   (if returncode = 0 then out else formatted_content) w
             | Not_Found \<Rightarrow>
                 write_back file_path formatted_content
                   (print ''clang-format not found, using custom formatting only'' w)
             | Popen_Raised e \<Rightarrow> report_error file_path e w)"

text \<open>The script: the usage line and exit status 1 without a file argument, else the
  files one after the other.\<close>

definition format_main :: "world \<Rightarrow> string list \<Rightarrow> world \<times> nat" where
  "format_main w argv =
     (if length argv < 2
      then (print ''Usage: python format_keymap.py <keymap_file>'' w, 1)
      else (foldl format_with_clang_and_grid w (tl argv), 0))"

section \<open>Definitions used to state the properties\<close>

text \<open>A token as the pattern finds it: \<^verbatim>\<open>&\<close> and a non-empty run of identifier
  characters. \<open>stops\<close> holds of a text at whose start a run of identifier characters ends.\<close>

definition is_token :: "string \<Rightarrow> bool" where
  "is_token t = (case t of [] \<Rightarrow> False | c # run \<Rightarrow> c = CHR ''&'' \<and> run \<noteq> [] \<and> list_all ident_char run)"

definition row_of :: "string list \<Rightarrow> string" where
  "row_of ts = join '' '' (map (ljust 12) ts)"

definition row_tokens :: "string list \<Rightarrow> nat \<Rightarrow> string list" where
  "row_tokens bl k = slice bl (columns * k) (columns * k + columns)"

definition grid_body :: "string list \<Rightarrow> string" where
  "grid_body rows = row_sep @ join row_sep rows @ backslash # newline # ''    ''"

definition stops :: "string \<Rightarrow> bool" where
  "stops s = (case s of [] \<Rightarrow> True | c # cs \<Rightarrow> \<not> ident_char c)"

text \<open>
  The matches of the block pattern in a text, as \<^verbatim>\<open>re.sub\<close> finds them: the scan of
  \<^const>\<open>re_sub_block\<close>, keeping each character it copies and each block it matches.
\<close>

datatype segment = Outside char | Block string

function split_blocks :: "string \<Rightarrow> segment list" where
  "split_blocks [] = []"
| "split_blocks (c # cs) =
     (case match_block (c # cs) of
        Some (body, rest) \<Rightarrow> Block body # split_blocks rest
      | None \<Rightarrow> Outside c # split_blocks cs)"
  by pat_completeness auto
termination
proof (relation "measure length")
  show "wf (measure (length :: string \<Rightarrow> nat))" by simp
next
  fix c cs x2 body rest
  assume m: "match_block (c # cs) = Some x2" and x2: "(body, rest) = x2"
  let ?t = "drop 12 (c # cs)"
  from m x2 have "rest = tl (dropWhile (\<lambda>c. c \<noteq> CHR ''>'') ?t)"
    by (auto simp: match_block_def Let_def split: if_splits)
  moreover have "length (dropWhile (\<lambda>c. c \<noteq> CHR ''>'') ?t) \<le> length ?t"
    by (rule length_dropWhile_le)
  ultimately have "length rest < Suc (length cs)"
    by simp
  then show "(rest, c # cs) \<in> measure length"
    by simp
next
  fix c :: char and cs
  show "(cs, c # cs) \<in> measure length"
    by simp
qed

fun source_of :: "segment \<Rightarrow> string" where
  "source_of (Outside c) = [c]"
| "source_of (Block body) = ''bindings = <'' @ body @ ''>''"

fun render :: "(string \<Rightarrow> string) \<Rightarrow> segment \<Rightarrow> string" where
  "render repl (Outside c) = [c]"
| "render repl (Block body) = repl body"

definition has_block :: "string \<Rightarrow> bool" where
  "has_block s =
     (\<exists>pre body post. s = pre @ ''bindings = <'' @ body @ ''>'' @ post \<and>
        body \<noteq> [] \<and> CHR ''>'' \<notin> set body)"

text \<open>
  A text ends inside an open block: it holds \<^verbatim>\<open>bindings = <\<close> with no \<^verbatim>\<open>>\<close> after it.
  \<open>opener_open\<close> decides it by a scan.
\<close>

definition open_before :: "string \<Rightarrow> bool" where
  "open_before pre =
     (\<exists>a b. pre = a @ ''bindings = <'' @ b \<and> CHR ''>'' \<notin> set b)"

fun opener_open :: "string \<Rightarrow> bool" where
  "opener_open [] = False"
| "opener_open (c # cs) =
     ((prefix ''bindings = <'' (c # cs) \<and> CHR ''>'' \<notin> set (drop 12 (c # cs))) \<or> opener_open cs)"


text \<open>
  The two tests of the validator as the specification words them: a text is present as a
  substring; somewhere stand one or more word characters, \<^verbatim>\<open>_layer\<close>, white space or none,
  and an opening brace.
\<close>

definition substring_present :: "string \<Rightarrow> string \<Rightarrow> bool" where
  "substring_present sub s = (\<exists>pre post. s = pre @ sub @ post)"

definition layer_declared :: "(char \<Rightarrow> bool) \<Rightarrow> (char \<Rightarrow> bool) \<Rightarrow> string \<Rightarrow> bool" where
  "layer_declared uni_word uni_space s =
     (\<exists>pre w ws post. s = pre @ w @ ''_layer'' @ ws @ ''{'' @ post \<and> w \<noteq> [] \<and>
        (\<forall>c\<in>set w. word_char uni_word c) \<and> (\<forall>c\<in>set ws. space_char uni_space c))"

text \<open>Concrete worlds for the examples: texts in ASCII, so the Unicode tables are never
  asked, and a file system with one file.\<close>

definition no_unicode :: "char \<Rightarrow> bool" where
  "no_unicode c = False"

definition single_file :: "path \<Rightarrow> string \<Rightarrow> file_system" where
  "single_file name content p =
     (if p = name then Inr content
      else Inl (''[Errno 2] No such file or directory: '' @ p))"

definition scenario2_content :: string where
  "scenario2_content =
     ''#include <dt-bindings/zmk/keys.h> / { keymap { compatible = '' @ CHR 0x22 # ''zmk,keymap'' @
     CHR 0x22 # ''; default_layer { bindings = <&kp A>; }; }; };''"

definition scenario3_content :: string where
  "scenario3_content = ''#include <behaviors.dtsi> '' @ scenario2_content"

text \<open>Three external formatters for the examples: one that fails, one that is not
  installed, one that succeeds; and a world with one file that can be written.\<close>

definition failing_clang :: "string \<Rightarrow> popen_result" where
  "failing_clang input = Exited 1 ''''"

definition absent_clang :: "string \<Rightarrow> popen_result" where
  "absent_clang input = Not_Found"

definition upper_clang :: "string \<Rightarrow> popen_result" where
  "upper_clang input = Exited 0 (''// formatted'' @ input)"

definition writable :: "path \<Rightarrow> write_failure option" where
  "writable p = None"

definition example_world :: "(string \<Rightarrow> popen_result) \<Rightarrow> world" where
  "example_world clang =
     \<lparr>files = single_file ''k.keymap'' ''bindings = <>;'', write_error = writable,
      clang_format = clang, stdout = []\<rparr>"

section \<open>The grid formatter: proofs\<close>

subsection \<open>Token extraction\<close>

lemma match_token_Some:
  "match_token s = Some (tok, rest) \<Longrightarrow> is_token tok \<and> s = tok @ rest"
  by (auto simp: match_token_def is_token_def list_all_iff split: list.splits if_splits dest: set_takeWhileD)

lemma findall_tokens_are_tokens: "t \<in> set (findall_tokens s) \<Longrightarrow> is_token t"
  by (induction s rule: findall_tokens.induct)
     (auto split: option.splits dest: match_token_Some)

lemma match_token_not_amp: "c \<noteq> CHR ''&'' \<Longrightarrow> match_token (c # cs) = None"
  by (simp add: match_token_def)

lemma findall_tokens_skip: "CHR ''&'' \<notin> set p \<Longrightarrow> findall_tokens (p @ s) = findall_tokens s"
  by (induction p) (auto simp: match_token_not_amp)

lemma match_token_token:
  assumes "is_token t" "stops rest"
  shows "match_token (t @ rest) = Some (t, rest)"
proof -
  from assms(1) obtain run where t: "t = CHR ''&'' # run" and ne: "run \<noteq> []"
    and id: "\<forall>c\<in>set run. ident_char c"
    by (auto simp: is_token_def list_all_iff split: list.splits)
  from assms(2) have tw: "takeWhile ident_char rest = []" and dw: "dropWhile ident_char rest = rest"
    by (auto simp: stops_def split: list.splits)
  from id have "takeWhile ident_char (run @ rest) = run" "dropWhile ident_char (run @ rest) = rest"
    using tw dw by (simp_all add: takeWhile_append2 dropWhile_append2)
  with t ne show ?thesis by (simp add: match_token_def)
qed

lemma findall_tokens_token:
  "is_token t \<Longrightarrow> stops rest \<Longrightarrow> findall_tokens (t @ rest) = t # findall_tokens rest"
proof -
  assume a: "is_token t" "stops rest"
  then obtain c cs where "t @ rest = c # cs" by (cases t) (auto simp: is_token_def)
  with match_token_token [OF a] show ?thesis by (metis findall_tokens.simps(2) option.simps(5) old.prod.case)
qed

lemma findall_tokens_ljust:
  assumes "is_token t" "stops rest"
  shows "findall_tokens (ljust w t @ rest) = t # findall_tokens rest"
proof -
  let ?pad = "replicate (w - length t) (CHR '' '')"
  have s: "stops (?pad @ rest)"
    using assms(2) by (cases "w - length t") (auto simp: stops_def ident_char_def)
  have "findall_tokens (ljust w t @ rest) = t # findall_tokens (?pad @ rest)"
    using findall_tokens_token [OF assms(1) s] by (simp add: ljust_def)
  also have "findall_tokens (?pad @ rest) = findall_tokens rest"
    by (rule findall_tokens_skip) simp
  finally show ?thesis .
qed

lemma findall_tokens_row:
  "\<forall>t\<in>set ts. is_token t \<Longrightarrow> stops rest \<Longrightarrow>
   findall_tokens (row_of ts @ rest) = ts @ findall_tokens rest"
proof (induction ts rule: induct_list012)
  case 1
  then show ?case by (simp add: row_of_def)
next
  case (2 t)
  then show ?case by (simp add: row_of_def findall_tokens_ljust)
next
  case (3 t u us)
  have "stops ('' '' @ row_of (u # us) @ rest)" by (simp add: stops_def ident_char_def)
  with 3 have "findall_tokens (ljust 12 t @ '' '' @ row_of (u # us) @ rest)
      = t # findall_tokens ('' '' @ row_of (u # us) @ rest)"
    by (simp add: findall_tokens_ljust)
  also have "findall_tokens ('' '' @ row_of (u # us) @ rest) = findall_tokens (row_of (u # us) @ rest)"
    by (rule findall_tokens_skip) simp
  also have "\<dots> = (u # us) @ findall_tokens rest" using 3 by simp
  finally show ?case by (simp add: row_of_def)
qed

lemma stops_row_sep: "stops (row_sep @ s)"
  by (simp add: stops_def row_sep_def ident_char_def)

lemma findall_tokens_row_sep: "findall_tokens (row_sep @ s) = findall_tokens s"
  by (rule findall_tokens_skip) (simp add: row_sep_def)

lemma findall_tokens_rows:
  "\<forall>ts\<in>set tss. \<forall>t\<in>set ts. is_token t \<Longrightarrow> stops rest \<Longrightarrow>
   findall_tokens (join row_sep (map row_of tss) @ rest) = concat tss @ findall_tokens rest"
proof (induction tss rule: induct_list012)
  case 1
  then show ?case by simp
next
  case (2 ts)
  then show ?case by (simp add: findall_tokens_row)
next
  case (3 ts us uss)
  have "findall_tokens (row_of ts @ row_sep @ join row_sep (map row_of (us # uss)) @ rest)
      = ts @ findall_tokens (row_sep @ join row_sep (map row_of (us # uss)) @ rest)"
    using 3(3) by (intro findall_tokens_row stops_row_sep) simp
  also have "findall_tokens (row_sep @ join row_sep (map row_of (us # uss)) @ rest)
      = findall_tokens (join row_sep (map row_of (us # uss)) @ rest)"
    by (rule findall_tokens_row_sep)
  also have "\<dots> = concat (us # uss) @ findall_tokens rest"
    using 3 by simp
  finally show ?case by simp
qed

subsection \<open>The loop over the rows\<close>

lemma n_rows_step: "i < n \<Longrightarrow> (n - i + 9) div 10 = Suc ((n - (i + 10) + 9) div (10::nat))"
  by (cases "i + 10 \<le> n") auto

lemma upt_0_Suc_map: "[0..<Suc m] = 0 # map Suc [0..<m]"
  by (simp add: upt_conv_Cons map_Suc_upt del: upt_Suc)

lemma grid_loop_rows:
  "grid_loop bl i acc =
     acc @ map (\<lambda>k. row_of (slice bl (i + columns * k) (i + columns * k + columns)))
             [0..<(length bl - i + 9) div 10]"
proof (induction bl i acc rule: grid_loop.induct)
  case (1 bl i acc)
  show ?case
  proof (cases "i < length bl")
    case True
    note IH = 1 [OF True]
    have m: "(length bl - i + 9) div 10 = Suc ((length bl - (i + columns) + 9) div 10)"
      using n_rows_step [OF True] by (simp add: columns_def)
    show ?thesis
      apply (subst grid_loop.simps)
      apply (simp only: True if_True IH m upt_0_Suc_map)
      apply (simp add: row_of_def o_def columns_def add.assoc)
      done
  next
    case False
    then show ?thesis by (subst grid_loop.simps) simp
  qed
qed

lemma concat_slices:
  "concat (map (\<lambda>k. slice (bl :: string list) (i + columns * k) (i + columns * k + columns))
             [0..<(length bl - i + 9) div 10]) = drop i bl"
proof (induction "length bl - i" arbitrary: i rule: less_induct)
  case less
  show ?case
  proof (cases "i < length bl")
    case True
    have m: "(length bl - i + 9) div 10 = Suc ((length bl - (i + columns) + 9) div 10)"
      using n_rows_step [OF True] by (simp add: columns_def)
    have td: "take columns (drop i bl) @ drop (i + columns) bl = drop i bl"
      by (metis add.commute append_take_drop_id drop_drop)
    have "concat (map (\<lambda>k. slice bl (i + columns * k) (i + columns * k + columns))
             [0..<(length bl - i + 9) div 10])
        = slice bl i (i + columns) @
          concat (map (\<lambda>k. slice bl (i + columns + columns * k) (i + columns + columns * k + columns))
             [0..<(length bl - (i + columns) + 9) div 10])"
      by (simp only: m upt_0_Suc_map) (simp add: o_def add.assoc)
    also have "\<dots> = slice bl i (i + columns) @ drop (i + columns) bl"
      using less [of "i + columns"] True by (simp add: columns_def)
    also have "\<dots> = drop i bl"
      using td by (simp add: slice_def)
    finally show ?thesis .
  next
    case False
    then show ?thesis by simp
  qed
qed

subsection \<open>Tokens of a reformatted block\<close>

lemma grid_loop_0:
  "grid_loop bl 0 [] = map (\<lambda>k. row_of (row_tokens bl k)) [0..<(length bl + 9) div 10]"
  using grid_loop_rows [of bl 0 "[]"] by (simp add: row_tokens_def)

lemma concat_row_tokens:
  "concat (map (row_tokens bl) [0..<(length bl + 9) div 10]) = (bl :: string list)"
  using concat_slices [of bl 0] by (simp add: row_tokens_def [abs_def])

lemma format_bindings_grid_body:
  "format_bindings b = ''bindings = <'' @ grid_body (grid_loop (findall_tokens b) 0 []) @ ''>''"
  by (simp add: format_bindings_def grid_body_def Let_def)

lemma findall_tokens_grid_body_tail:
  assumes "CHR ''&'' \<notin> set tail"
  shows "findall_tokens (grid_body (grid_loop (findall_tokens b) 0 []) @ tail) = findall_tokens b"
proof -
  let ?bl = "findall_tokens b"
  let ?tss = "map (row_tokens ?bl) [0..<(length ?bl + 9) div 10]"
  let ?tail = "backslash # newline # ''    '' @ tail"
  have rows: "grid_loop ?bl 0 [] = map row_of ?tss"
    by (simp add: grid_loop_0 o_def)
  have tok: "\<forall>ts\<in>set ?tss. \<forall>t\<in>set ts. is_token t"
  proof (intro ballI)
    fix ts t assume "ts \<in> set ?tss" "t \<in> set ts"
    then have "t \<in> set ?bl"
      by (auto simp: row_tokens_def slice_def dest: in_set_takeD in_set_dropD)
    then show "is_token t" by (rule findall_tokens_are_tokens)
  qed
  have st: "stops ?tail" by (simp add: stops_def ident_char_def)
  have "findall_tokens (grid_body (grid_loop ?bl 0 []) @ tail)
      = findall_tokens (join row_sep (map row_of ?tss) @ ?tail)"
    by (simp add: grid_body_def rows findall_tokens_row_sep)
  also have "\<dots> = concat ?tss @ findall_tokens ?tail"
    by (rule findall_tokens_rows [OF tok st])
  also have "findall_tokens ?tail = findall_tokens (?tail @ [])" by simp
  also have "\<dots> = []"
    using assms by (subst findall_tokens_skip) simp_all
  finally show ?thesis by (simp add: concat_row_tokens)
qed

lemma findall_tokens_format_bindings:
  "findall_tokens (format_bindings b) = findall_tokens b"
proof -
  have "findall_tokens (format_bindings b)
      = findall_tokens (''bindings = <'' @ (grid_body (grid_loop (findall_tokens b) 0 []) @ ''>''))"
    by (simp add: format_bindings_grid_body)
  also have "\<dots> = findall_tokens (grid_body (grid_loop (findall_tokens b) 0 []) @ ''>'')"
    by (rule findall_tokens_skip) simp
  finally show ?thesis by (simp add: findall_tokens_grid_body_tail)
qed

lemma join_fields: "join sep (f # fs) = f @ concat (map (\<lambda>g. sep @ g) fs)"
  by (induction fs arbitrary: f) auto

subsection \<open>The block pattern and the substitution\<close>

lemma match_block_SomeD:
  assumes "match_block s = Some (body, rest)"
  shows "s = ''bindings = <'' @ body @ CHR ''>'' # rest \<and> body \<noteq> [] \<and> CHR ''>'' \<notin> set body"
proof -
  let ?P = "\<lambda>c. c \<noteq> CHR ''>''"
  let ?t = "drop 12 s"
  from assms have p: "prefix ''bindings = <'' s"
    and b: "body = takeWhile ?P ?t" and ne: "body \<noteq> []"
    and d: "dropWhile ?P ?t \<noteq> []" and r: "rest = tl (dropWhile ?P ?t)"
    by (auto simp: match_block_def Let_def split: if_splits)
  from p obtain u where u: "s = ''bindings = <'' @ u" by (auto simp: prefix_def)
  then have t: "?t = u" by simp
  from d have "hd (dropWhile ?P ?t) = CHR ''>''"
    using hd_dropWhile [of ?P ?t] by simp
  with d r have "dropWhile ?P ?t = CHR ''>'' # rest"
    by (cases "dropWhile ?P ?t") auto
  then have "?t = body @ CHR ''>'' # rest"
    using takeWhile_dropWhile_id [of ?P ?t] b by simp
  moreover have "CHR ''>'' \<notin> set body"
    using b by (auto dest: set_takeWhileD)
  ultimately show ?thesis using u t ne by simp
qed

lemma match_block_SomeI:
  assumes "body \<noteq> []" "CHR ''>'' \<notin> set body"
  shows "match_block (''bindings = <'' @ body @ CHR ''>'' # rest) = Some (body, rest)"
proof -
  let ?P = "\<lambda>c. c \<noteq> CHR ''>''"
  from assms(2) have "takeWhile ?P (body @ CHR ''>'' # rest) = body"
    "dropWhile ?P (body @ CHR ''>'' # rest) = CHR ''>'' # rest"
    by (induction body) auto
  with assms(1) show ?thesis
    by (simp add: match_block_def)
qed

lemma match_block_not_b: "c \<noteq> CHR ''b'' \<Longrightarrow> match_block (c # cs) = None"
  by (simp add: match_block_def)

lemma re_sub_block_skip:
  "CHR ''b'' \<notin> set q \<Longrightarrow> re_sub_block f (q @ s) = q @ re_sub_block f s"
  by (induction q) (auto simp: match_block_not_b)

lemma match_block_no_gt: "CHR ''>'' \<notin> set s \<Longrightarrow> match_block s = None"
proof (cases "match_block s")
  case (Some a)
  assume "CHR ''>'' \<notin> set s"
  moreover obtain body rest where "a = (body, rest)" by (cases a)
  ultimately show ?thesis using match_block_SomeD [of s body rest] Some
    by (metis in_set_conv_decomp append_assoc)
qed simp

lemma re_sub_block_no_gt: "CHR ''>'' \<notin> set s \<Longrightarrow> re_sub_block f s = s"
  by (induction s) (auto simp: match_block_no_gt)

lemma match_block_has_block: "match_block s = Some (body, rest) \<Longrightarrow> has_block s"
  unfolding has_block_def
  by (rule exI [of _ "[]"], rule exI [of _ body], rule exI [of _ rest])
     (use match_block_SomeD [of s body rest] in simp)

lemma has_block_Cons: "has_block cs \<Longrightarrow> has_block (c # cs)"
  unfolding has_block_def
  by (metis append_Cons)

lemma re_sub_block_no_block: "\<not> has_block s \<Longrightarrow> re_sub_block f s = s"
proof (induction s)
  case Nil
  then show ?case by simp
next
  case (Cons c cs)
  have "match_block (c # cs) = None"
  proof (cases "match_block (c # cs)")
    case (Some a)
    then show ?thesis using Cons.prems match_block_has_block [of "c # cs" "fst a" "snd a"] by simp
  qed simp
  moreover have "\<not> has_block cs" using Cons.prems has_block_Cons by blast
  ultimately show ?case using Cons.IH by simp
qed

lemma concat_source_of: "concat (map source_of (split_blocks s)) = s"
  by (induction s rule: split_blocks.induct)
     (auto split: option.splits dest: match_block_SomeD)

lemma re_sub_block_segments:
  "re_sub_block f s = concat (map (render f) (split_blocks s))"
  by (induction s rule: split_blocks.induct) (auto split: option.splits)

lemma split_blocks_Block:
  "Block body \<in> set (split_blocks s) \<Longrightarrow> body \<noteq> [] \<and> CHR ''>'' \<notin> set body"
  by (induction s rule: split_blocks.induct)
     (auto split: option.splits dest: match_block_SomeD)

lemma split_blocks_no_block: "\<not> has_block s \<Longrightarrow> split_blocks s = map Outside s"
proof (induction s)
  case Nil
  then show ?case by simp
next
  case (Cons c cs)
  have "match_block (c # cs) = None"
  proof (cases "match_block (c # cs)")
    case (Some a)
    then show ?thesis using Cons.prems match_block_has_block [of "c # cs" "fst a" "snd a"] by simp
  qed simp
  moreover have "\<not> has_block cs" using Cons.prems has_block_Cons by blast
  ultimately show ?case using Cons.IH by simp
qed

lemma gt_notin_join:
  "CHR ''>'' \<notin> set sep \<Longrightarrow> \<forall>x\<in>set xs. CHR ''>'' \<notin> set x \<Longrightarrow> CHR ''>'' \<notin> set (join sep xs)"
  by (induction xs rule: induct_list012) auto

lemma gt_notin_token: "is_token t \<Longrightarrow> CHR ''>'' \<notin> set t"
  by (auto simp: is_token_def list_all_iff ident_char_def split: list.splits)

lemma gt_notin_row_of: "\<forall>t\<in>set ts. is_token t \<Longrightarrow> CHR ''>'' \<notin> set (row_of ts)"
  unfolding row_of_def
  by (rule gt_notin_join) (auto simp: ljust_def dest: gt_notin_token)

lemma gt_notin_grid_body: "CHR ''>'' \<notin> set (grid_body (grid_loop (findall_tokens b) 0 []))"
proof -
  let ?bl = "findall_tokens b"
  have "\<forall>r\<in>set (grid_loop ?bl 0 []). CHR ''>'' \<notin> set r"
  proof
    fix r assume "r \<in> set (grid_loop ?bl 0 [])"
    then obtain k where r: "r = row_of (row_tokens ?bl k)"
      by (auto simp: grid_loop_0)
    have "\<forall>t\<in>set (row_tokens ?bl k). is_token t"
      by (auto simp: row_tokens_def slice_def dest!: in_set_takeD in_set_dropD findall_tokens_are_tokens)
    then show "CHR ''>'' \<notin> set r" unfolding r by (rule gt_notin_row_of)
  qed
  then have "CHR ''>'' \<notin> set (join row_sep (grid_loop ?bl 0 []))"
    by (intro gt_notin_join) (simp_all add: row_sep_def)
  then show ?thesis by (simp add: grid_body_def row_sep_def)
qed

lemma grid_body_nonempty: "grid_body rows \<noteq> []"
  by (simp add: grid_body_def row_sep_def)

lemma format_bindings_cong:
  "findall_tokens b = findall_tokens b' \<Longrightarrow> format_bindings b = format_bindings b'"
  by (simp add: format_bindings_def)

lemma match_block_format_bindings:
  "match_block (format_bindings b @ rest)
     = Some (grid_body (grid_loop (findall_tokens b) 0 []), rest)"
  using match_block_SomeI [OF grid_body_nonempty gt_notin_grid_body, of b rest]
  by (simp add: format_bindings_grid_body)

lemma format_bindings_again:
  "format_bindings (grid_body (grid_loop (findall_tokens b) 0 [])) = format_bindings b"
  using findall_tokens_grid_body_tail [of "[]" b] by (intro format_bindings_cong) simp

lemma prefix_format_keymap_bindings:
  "CHR ''b'' \<notin> set q \<Longrightarrow> prefix q (format_keymap_bindings s) \<Longrightarrow> prefix q s"
proof (induction q arbitrary: s)
  case Nil
  then show ?case by simp
next
  case (Cons x q)
  show ?case
  proof (cases s)
    case Nil
    with Cons.prems show ?thesis by (simp add: format_keymap_bindings_def)
  next
    case (Cons c cs)
    show ?thesis
    proof (cases "match_block (c # cs)")
      case None
      with Cons.prems Cons.IH [of cs] Cons show ?thesis
        by (simp add: format_keymap_bindings_def)
    next
      case (Some a)
      then have "format_keymap_bindings s = format_bindings (fst a) @ format_keymap_bindings (snd a)"
        using Cons by (simp add: format_keymap_bindings_def split: prod.splits)
      then have "hd (format_keymap_bindings s) = CHR ''b''"
        by (simp add: format_bindings_grid_body)
      moreover have "hd (format_keymap_bindings s) = x"
        using Cons.prems(2) by (auto simp: prefix_def)
      ultimately show ?thesis using Cons.prems(1) by simp
    qed
  qed
qed

lemma match_block_None_format:
  assumes "match_block (c # cs) = None"
  shows "match_block (c # format_keymap_bindings cs) = None"
proof (cases "match_block (c # format_keymap_bindings cs)")
  case None
  then show ?thesis .
next
  case (Some a)
  obtain body' rest' where a: "a = (body', rest')" by (cases a)
  let ?q = "''indings = <''"
  from match_block_SomeD [of "c # format_keymap_bindings cs" body' rest'] Some a
  have eq: "c # format_keymap_bindings cs = ''bindings = <'' @ body' @ CHR ''>'' # rest'"
    and ne: "body' \<noteq> []" and nogt: "CHR ''>'' \<notin> set body'"
    by simp_all
  from eq have c: "c = CHR ''b''" and f: "format_keymap_bindings cs = ?q @ body' @ CHR ''>'' # rest'"
    by simp_all
  have "prefix ?q cs"
    by (rule prefix_format_keymap_bindings) (simp_all add: f)
  then obtain t where cs: "cs = ?q @ t" by (auto simp: prefix_def)
  have "format_keymap_bindings cs = ?q @ format_keymap_bindings t"
    unfolding cs format_keymap_bindings_def by (rule re_sub_block_skip) simp
  with f have ft: "format_keymap_bindings t = body' @ CHR ''>'' # rest'"
    by simp
  from assms c cs have none: "match_block (''bindings = <'' @ t) = None"
    by simp
  show ?thesis
  proof (cases "CHR ''>'' \<in> set t")
    case False
    then have "format_keymap_bindings t = t"
      by (simp add: format_keymap_bindings_def re_sub_block_no_gt)
    with ft False show ?thesis by simp
  next
    case True
    then obtain body rest where t: "t = body @ CHR ''>'' # rest" and b: "CHR ''>'' \<notin> set body"
      by (auto dest: split_list_first)
    have "body = []"
    proof (rule ccontr)
      assume "body \<noteq> []"
      from match_block_SomeI [OF this b, of rest] none t show False by simp
    qed
    with t have "format_keymap_bindings t = CHR ''>'' # format_keymap_bindings rest"
      by (simp add: format_keymap_bindings_def match_block_not_b)
    with ft ne nogt show ?thesis
      by (cases body') auto
  qed
qed

lemma re_sub_block_match:
  "match_block s = Some (body, rest) \<Longrightarrow> re_sub_block f s = f body @ re_sub_block f rest"
  by (cases s) (simp_all add: match_block_def)

lemma format_keymap_bindings_idem:
  "format_keymap_bindings (format_keymap_bindings s) = format_keymap_bindings s"
proof (induction s rule: split_blocks.induct)
  case 1
  then show ?case by (simp add: format_keymap_bindings_def)
next
  case (2 c cs)
  show ?case
  proof (cases "match_block (c # cs)")
    case None
    then have step: "format_keymap_bindings (c # cs) = c # format_keymap_bindings cs"
      by (simp add: format_keymap_bindings_def)
    have "format_keymap_bindings (c # format_keymap_bindings cs)
        = c # format_keymap_bindings (format_keymap_bindings cs)"
      using match_block_None_format [OF None] by (simp add: format_keymap_bindings_def)
    with step 2(1) [OF None] show ?thesis by simp
  next
    case (Some a)
    obtain body rest where a: "a = (body, rest)" by (cases a)
    let ?gb = "grid_body (grid_loop (findall_tokens body) 0 [])"
    from Some a have step: "format_keymap_bindings (c # cs)
        = format_bindings body @ format_keymap_bindings rest"
      by (simp add: format_keymap_bindings_def)
    have IH: "format_keymap_bindings (format_keymap_bindings rest) = format_keymap_bindings rest"
      by (rule 2(2) [OF Some a [symmetric]])
    have "format_keymap_bindings (format_bindings body @ format_keymap_bindings rest)
        = format_bindings ?gb @ format_keymap_bindings (format_keymap_bindings rest)"
      unfolding format_keymap_bindings_def
      by (rule re_sub_block_match) (rule match_block_format_bindings)
    with step IH show ?thesis
      by (simp add: format_bindings_again)
  qed
qed

lemma match_block_empty_body: "match_block (''bindings = <>'' @ post) = None"
  by (simp add: match_block_def)

lemma re_sub_block_empty_body:
  "re_sub_block f (''bindings = <>'' @ post) = ''bindings = <>'' @ re_sub_block f post"
proof -
  have "re_sub_block f (''bindings = <>'' @ post)
      = CHR ''b'' # re_sub_block f (''indings = <>'' @ post)"
    using match_block_empty_body [of post] by simp
  also have "re_sub_block f (''indings = <>'' @ post) = ''indings = <>'' @ re_sub_block f post"
    by (rule re_sub_block_skip) simp
  finally show ?thesis by simp
qed

lemma open_before_iff: "open_before s \<longleftrightarrow> opener_open s"
proof (induction s)
  case Nil
  then show ?case by (simp add: open_before_def)
next
  case (Cons c cs)
  show ?case
  proof
    assume "open_before (c # cs)"
    then obtain a b where s: "c # cs = a @ ''bindings = <'' @ b" and b: "CHR ''>'' \<notin> set b"
      unfolding open_before_def by blast
    show "opener_open (c # cs)"
    proof (cases a)
      case Nil
      with s b show ?thesis by simp
    next
      case (Cons x a')
      with s have "cs = a' @ ''bindings = <'' @ b" by simp
      with b have "open_before cs" unfolding open_before_def by blast
      with Cons.IH show ?thesis by simp
    qed
  next
    assume "opener_open (c # cs)"
    then consider "prefix ''bindings = <'' (c # cs) \<and> CHR ''>'' \<notin> set (drop 12 (c # cs))"
      | "opener_open cs" by auto
    then show "open_before (c # cs)"
    proof cases
      case 1
      then obtain b where "c # cs = ''bindings = <'' @ b" by (auto simp: prefix_def)
      with 1 have "c # cs = [] @ ''bindings = <'' @ b \<and> CHR ''>'' \<notin> set b" by auto
      then show ?thesis unfolding open_before_def by blast
    next
      case 2
      with Cons.IH obtain a b where "cs = a @ ''bindings = <'' @ b" "CHR ''>'' \<notin> set b"
        unfolding open_before_def by blast
      then have "c # cs = (c # a) @ ''bindings = <'' @ b \<and> CHR ''>'' \<notin> set b" by simp
      then show ?thesis unfolding open_before_def by blast
    qed
  qed
qed

lemma open_before_Cons: "open_before cs \<Longrightarrow> open_before (c # cs)"
  by (simp add: open_before_iff)

lemma match_block_append:
  assumes "match_block pre = Some (body, rest)"
  shows "match_block (pre @ s) = Some (body, rest @ s)"
proof -
  from match_block_SomeD [OF assms]
  have "pre = ''bindings = <'' @ body @ CHR ''>'' # rest" "body \<noteq> []" "CHR ''>'' \<notin> set body"
    by simp_all
  then show ?thesis
    using match_block_SomeI [of body "rest @ s"] by simp
qed

lemma match_block_no_prefix: "\<not> prefix ''bindings = <'' s \<Longrightarrow> match_block s = None"
  by (simp add: match_block_def)

lemma prefix_opener_append:
  assumes "prefix ''bindings = <'' (pre @ CHR ''b'' # s)" and "pre \<noteq> []"
  shows "prefix ''bindings = <'' pre"
proof -
  from assms(1) consider "prefix ''bindings = <'' pre"
    | us where "''bindings = <'' = pre @ us" "prefix us (CHR ''b'' # s)"
    unfolding prefix_append by blast
  then show ?thesis
  proof cases
    case 1
    then show ?thesis .
  next
    case 2
    show ?thesis
    proof (cases us)
      case Nil
      with 2(1) show ?thesis by simp
    next
      case (Cons u us')
      with 2(2) have "u = CHR ''b''" by simp
      moreover from assms(2) obtain p pre' where "pre = p # pre'" by (cases pre) auto
      ultimately have "''bindings = <'' = p # pre' @ CHR ''b'' # us'"
        using 2(1) Cons by simp
      then have "CHR ''b'' \<in> set ''indings = <''"
        by (metis list.inject in_set_conv_decomp)
      then show ?thesis by simp
    qed
  qed
qed

lemma match_block_None_append:
  assumes "match_block (c # cs) = None" and "\<not> open_before (c # cs)"
  shows "match_block ((c # cs) @ CHR ''b'' # s) = None"
proof (cases "prefix ''bindings = <'' (c # cs)")
  case False
  then have "\<not> prefix ''bindings = <'' ((c # cs) @ CHR ''b'' # s)"
    using prefix_opener_append [of "c # cs" s] by blast
  then show ?thesis by (rule match_block_no_prefix)
next
  case True
  then obtain b where p: "c # cs = ''bindings = <'' @ b" by (auto simp: prefix_def)
  have gt: "CHR ''>'' \<in> set b"
  proof (rule ccontr)
    assume "CHR ''>'' \<notin> set b"
    with p have "c # cs = [] @ ''bindings = <'' @ b \<and> CHR ''>'' \<notin> set b" by simp
    then have "open_before (c # cs)" unfolding open_before_def by blast
    with assms(2) show False by simp
  qed
  then obtain body rest where b: "b = body @ CHR ''>'' # rest" and nb: "CHR ''>'' \<notin> set body"
    by (auto dest: split_list_first)
  have "body = []"
  proof (rule ccontr)
    assume "body \<noteq> []"
    from match_block_SomeI [OF this nb, of rest] assms(1) p b show False by simp
  qed
  with p b have "(c # cs) @ CHR ''b'' # s = ''bindings = <'' @ CHR ''>'' # (rest @ CHR ''b'' # s)"
    by simp
  then show ?thesis by (simp add: match_block_def)
qed

lemma open_before_rest:
  assumes "match_block pre = Some (body, rest)" and "\<not> open_before pre"
  shows "\<not> open_before rest"
proof
  assume "open_before rest"
  then obtain a b where "rest = a @ ''bindings = <'' @ b" "CHR ''>'' \<notin> set b"
    unfolding open_before_def by blast
  with match_block_SomeD [OF assms(1)]
  have "pre = (''bindings = <'' @ body @ CHR ''>'' # a) @ ''bindings = <'' @ b \<and> CHR ''>'' \<notin> set b"
    by simp
  then have "open_before pre" unfolding open_before_def by blast
  with assms(2) show False by simp
qed

lemma re_sub_block_append:
  "\<not> open_before pre \<Longrightarrow>
   re_sub_block f (pre @ CHR ''b'' # s) = re_sub_block f pre @ re_sub_block f (CHR ''b'' # s)"
proof (induction pre rule: split_blocks.induct)
  case 1
  then show ?case by simp
next
  case (2 c cs)
  show ?case
  proof (cases "match_block (c # cs)")
    case None
    have n: "\<not> open_before cs" using 2(3) open_before_Cons by blast
    have "match_block ((c # cs) @ CHR ''b'' # s) = None"
      using None 2(3) by (rule match_block_None_append)
    then have "re_sub_block f ((c # cs) @ CHR ''b'' # s) = c # re_sub_block f (cs @ CHR ''b'' # s)"
      by simp
    with 2(1) [OF None n] None show ?thesis by simp
  next
    case (Some a)
    obtain body rest where a: "a = (body, rest)" by (cases a)
    from Some a have m: "match_block (c # cs) = Some (body, rest)" by simp
    have n: "\<not> open_before rest" using m 2(3) by (rule open_before_rest)
    have "re_sub_block f ((c # cs) @ CHR ''b'' # s) = f body @ re_sub_block f (rest @ CHR ''b'' # s)"
      using match_block_append [OF m, of "CHR ''b'' # s"] by (rule re_sub_block_match)
    moreover have "re_sub_block f (c # cs) = f body @ re_sub_block f rest"
      using m by (rule re_sub_block_match)
    ultimately show ?thesis using 2(2) [OF Some a [symmetric] n] by simp
  qed
qed

lemma format_keymap_bindings_around_empty:
  assumes "\<not> open_before pre"
  shows "format_keymap_bindings (pre @ ''bindings = <>'' @ post)
           = format_keymap_bindings pre @ ''bindings = <>'' @ format_keymap_bindings post"
proof -
  have "re_sub_block format_bindings (pre @ CHR ''b'' # (''indings = <>'' @ post))
      = re_sub_block format_bindings pre @ re_sub_block format_bindings (CHR ''b'' # (''indings = <>'' @ post))"
    using assms by (rule re_sub_block_append)
  moreover have "re_sub_block format_bindings (''bindings = <>'' @ post)
      = ''bindings = <>'' @ re_sub_block format_bindings post"
    by (rule re_sub_block_empty_body)
  ultimately show ?thesis by (simp add: format_keymap_bindings_def)
qed

lemma has_block_split_blocks:
  "has_block s \<Longrightarrow> \<exists>body. Block body \<in> set (split_blocks s)"
proof (induction s rule: split_blocks.induct)
  case 1
  then show ?case by (simp add: has_block_def)
next
  case (2 c cs)
  show ?case
  proof (cases "match_block (c # cs)")
    case (Some a)
    then show ?thesis by (cases a) auto
  next
    case None
    from 2(3) obtain pre body post
      where s: "c # cs = pre @ ''bindings = <'' @ body @ ''>'' @ post"
        and b: "body \<noteq> []" "CHR ''>'' \<notin> set body"
      unfolding has_block_def by blast
    have "pre \<noteq> []"
    proof
      assume "pre = []"
      with s match_block_SomeI [OF b, of post] None show False by simp
    qed
    then obtain pre' where "pre = c # pre'" using s by (cases pre) auto
    with s b have "has_block cs" unfolding has_block_def by auto
    from 2(1) [OF None this] None show ?thesis by auto
  qed
qed

lemma has_block_iff: "has_block s \<longleftrightarrow> (\<exists>body. Block body \<in> set (split_blocks s))"
proof
  assume "has_block s"
  then show "\<exists>body. Block body \<in> set (split_blocks s)" by (rule has_block_split_blocks)
next
  assume "\<exists>body. Block body \<in> set (split_blocks s)"
  then show "has_block s"
    using split_blocks_no_block [of s] by (cases "has_block s") auto
qed

section \<open>The syntax validator: proofs\<close>

lemma contains_iff: "contains sub s \<longleftrightarrow> substring_present sub s"
proof (induction s)
  case Nil
  then show ?case by (auto simp: substring_present_def)
next
  case (Cons c cs)
  show ?case
  proof
    assume "contains sub (c # cs)"
    then consider "prefix sub (c # cs)" | "contains sub cs" by auto
    then show "substring_present sub (c # cs)"
    proof cases
      case 1
      then obtain post where "c # cs = sub @ post" by (auto simp: prefix_def)
      then have "c # cs = [] @ sub @ post" by simp
      then show ?thesis unfolding substring_present_def by blast
    next
      case 2
      with Cons.IH obtain pre post where "cs = pre @ sub @ post"
        by (auto simp: substring_present_def)
      then have "c # cs = (c # pre) @ sub @ post" by simp
      then show ?thesis unfolding substring_present_def by blast
    qed
  next
    assume "substring_present sub (c # cs)"
    then obtain pre post where s: "c # cs = pre @ sub @ post"
      by (auto simp: substring_present_def)
    show "contains sub (c # cs)"
    proof (cases pre)
      case Nil
      with s have "prefix sub (c # cs)" by (simp add: prefix_def)
      then show ?thesis by simp
    next
      case (Cons p pre')
      with s have "cs = pre' @ sub @ post" by simp
      then have "substring_present sub cs" unfolding substring_present_def by blast
      with Cons.IH show ?thesis by simp
    qed
  qed
qed

lemma brace_not_space: "\<not> space_char uni_space (CHR ''{'')"
  by (simp add: space_char_def)

lemma match_layer_tail_SomeD:
  assumes "match_layer_tail uni_space t = Some n"
  shows "\<exists>ws post. t = ''_layer'' @ ws @ ''{'' @ post \<and> (\<forall>c\<in>set ws. space_char uni_space c)"
proof -
  let ?P = "space_char uni_space"
  let ?u = "drop 6 t"
  from assms have p: "prefix ''_layer'' t"
    by (auto simp: match_layer_tail_def split: if_splits)
  then have t: "t = ''_layer'' @ ?u" by (auto simp: prefix_def)
  from assms p obtain rest where d: "dropWhile ?P ?u = CHR ''{'' # rest"
    by (auto simp: match_layer_tail_def split: if_splits list.splits)
  have "?u = takeWhile ?P ?u @ ''{'' @ rest"
    using takeWhile_dropWhile_id [of ?P ?u] d by simp
  with t have "t = ''_layer'' @ takeWhile ?P ?u @ ''{'' @ rest" by simp
  moreover have "\<forall>c\<in>set (takeWhile ?P ?u). ?P c" by (auto dest: set_takeWhileD)
  ultimately show ?thesis by blast
qed

lemma match_layer_tail_SomeI:
  assumes "\<forall>c\<in>set ws. space_char uni_space c"
  shows "match_layer_tail uni_space (''_layer'' @ ws @ ''{'' @ post) = Some (6 + length ws + 1)"
proof -
  let ?P = "space_char uni_space"
  from assms have "takeWhile ?P (ws @ CHR ''{'' # post) = ws"
    "dropWhile ?P (ws @ CHR ''{'' # post) = CHR ''{'' # post"
    by (induction ws) (auto simp: brace_not_space)
  then show ?thesis by (simp add: match_layer_tail_def)
qed

lemma backtrack_word_SomeD:
  "backtrack_word uni_space s k = Some n \<Longrightarrow>
   \<exists>j m. 0 < j \<and> j \<le> k \<and> match_layer_tail uni_space (drop j s) = Some m"
proof (induction k)
  case 0
  then show ?case by simp
next
  case (Suc k)
  show ?case
  proof (cases "match_layer_tail uni_space (drop (Suc k) s)")
    case None
    with Suc obtain j m where "0 < j" "j \<le> k" "match_layer_tail uni_space (drop j s) = Some m"
      by auto
    then show ?thesis by (intro exI [of _ j] exI [of _ m]) simp
  next
    case (Some m)
    then show ?thesis by (intro exI [of _ "Suc k"] exI [of _ m]) simp
  qed
qed

lemma backtrack_word_SomeI:
  "0 < j \<Longrightarrow> j \<le> k \<Longrightarrow> match_layer_tail uni_space (drop j s) = Some m \<Longrightarrow>
   backtrack_word uni_space s k \<noteq> None"
proof (induction k)
  case 0
  then show ?case by simp
next
  case (Suc k)
  then show ?case
    by (cases "j = Suc k") (auto split: option.splits)
qed

lemma match_layer_SomeD:
  assumes "match_layer uni_word uni_space s = Some n"
  shows "\<exists>w ws post. s = w @ ''_layer'' @ ws @ ''{'' @ post \<and> w \<noteq> [] \<and>
           (\<forall>c\<in>set w. word_char uni_word c) \<and> (\<forall>c\<in>set ws. space_char uni_space c)"
proof -
  let ?run = "takeWhile (word_char uni_word) s"
  from assms backtrack_word_SomeD [of uni_space s "length ?run" n]
  obtain j m where j: "0 < j" "j \<le> length ?run"
    and m: "match_layer_tail uni_space (drop j s) = Some m"
    by (auto simp: match_layer_def)
  from match_layer_tail_SomeD [OF m] obtain ws post
    where d: "drop j s = ''_layer'' @ ws @ ''{'' @ post" and ws: "\<forall>c\<in>set ws. space_char uni_space c"
    by blast
  have "s = take j s @ drop j s" by simp
  with d have s: "s = take j s @ ''_layer'' @ ws @ ''{'' @ post" by simp
  have "take j s = take j ?run"
    using j(2) by (metis append_eq_conv_conj takeWhile_dropWhile_id take_all_iff take_append
       diff_is_0_eq take_0 append_Nil2)
  then have w: "\<forall>c\<in>set (take j s). word_char uni_word c"
    by (auto dest: in_set_takeD set_takeWhileD)
  have "take j s \<noteq> []" using j by (auto simp: take_eq_Nil)
  with s w ws show ?thesis by blast
qed

lemma match_layer_SomeI:
  assumes "w \<noteq> []" "\<forall>c\<in>set w. word_char uni_word c" "\<forall>c\<in>set ws. space_char uni_space c"
  shows "match_layer uni_word uni_space (w @ ''_layer'' @ ws @ ''{'' @ post) \<noteq> None"
proof -
  let ?s = "w @ ''_layer'' @ ws @ ''{'' @ post"
  have "takeWhile (word_char uni_word) ?s = w @ takeWhile (word_char uni_word) (''_layer'' @ ws @ ''{'' @ post)"
    using assms(2) by (induction w) auto
  then have le: "length w \<le> length (takeWhile (word_char uni_word) ?s)" by simp
  have pos: "0 < length w" using assms(1) by simp
  have m: "match_layer_tail uni_space (drop (length w) ?s) = Some (6 + length ws + 1)"
    using match_layer_tail_SomeI [OF assms(3), of post] by simp
  show ?thesis
    unfolding match_layer_def by (rule backtrack_word_SomeI [OF pos le m])
qed

lemma findall_layers_declared:
  "findall_layers uni_word uni_space s \<noteq> [] \<Longrightarrow> layer_declared uni_word uni_space s"
proof (induction uni_word uni_space s rule: findall_layers.induct)
  case (1 uni_word uni_space)
  then show ?case by simp
next
  case (2 uni_word uni_space c cs)
  show ?case
  proof (cases "match_layer uni_word uni_space (c # cs)")
    case None
    with 2 have "layer_declared uni_word uni_space cs" by simp
    then obtain pre w ws post where "cs = pre @ w @ ''_layer'' @ ws @ ''{'' @ post" "w \<noteq> []"
      "\<forall>c\<in>set w. word_char uni_word c" "\<forall>c\<in>set ws. space_char uni_space c"
      unfolding layer_declared_def by blast
    then have "c # cs = (c # pre) @ w @ ''_layer'' @ ws @ ''{'' @ post \<and> w \<noteq> [] \<and>
      (\<forall>c\<in>set w. word_char uni_word c) \<and> (\<forall>c\<in>set ws. space_char uni_space c)" by simp
    then show ?thesis unfolding layer_declared_def by blast
  next
    case (Some n)
    from match_layer_SomeD [OF Some] obtain w ws post
      where "c # cs = [] @ w @ ''_layer'' @ ws @ ''{'' @ post \<and> w \<noteq> [] \<and>
      (\<forall>c\<in>set w. word_char uni_word c) \<and> (\<forall>c\<in>set ws. space_char uni_space c)" by auto
    then show ?thesis unfolding layer_declared_def by blast
  qed
qed

lemma declared_findall_layers:
  "layer_declared uni_word uni_space s \<Longrightarrow> findall_layers uni_word uni_space s \<noteq> []"
proof (induction uni_word uni_space s rule: findall_layers.induct)
  case (1 uni_word uni_space)
  then show ?case by (simp add: layer_declared_def)
next
  case (2 uni_word uni_space c cs)
  show ?case
  proof (cases "match_layer uni_word uni_space (c # cs)")
    case (Some n)
    then show ?thesis by simp
  next
    case None
    from 2(3) obtain pre w ws post where s: "c # cs = pre @ w @ ''_layer'' @ ws @ ''{'' @ post"
      and w: "w \<noteq> []" "\<forall>c\<in>set w. word_char uni_word c" "\<forall>c\<in>set ws. space_char uni_space c"
      unfolding layer_declared_def by blast
    have "pre \<noteq> []"
    proof
      assume "pre = []"
      with s match_layer_SomeI [OF w, of post] None show False by simp
    qed
    then obtain pre' where "pre = c # pre'" using s by (cases pre) auto
    with s have "cs = pre' @ w @ ''_layer'' @ ws @ ''{'' @ post" by simp
    with w have "layer_declared uni_word uni_space cs" unfolding layer_declared_def by blast
    from 2(1) [OF None this] None show ?thesis by simp
  qed
qed

lemma layer_count_zero_iff:
  "length (findall_layers uni_word uni_space s) = 0 \<longleftrightarrow> \<not> layer_declared uni_word uni_space s"
  using findall_layers_declared [of uni_word uni_space s] declared_findall_layers [of uni_word uni_space s]
  by auto

lemma validate_keymap_syntax_readable:
  assumes "fs keymap_file = Inr content"
  shows "validate_keymap_syntax uni_word uni_space fs keymap_file =
     (if substring_present ''#include <behaviors.dtsi>'' content then []
      else [''Missing required include: #include <behaviors.dtsi>'']) @
     (if substring_present ''#include <dt-bindings/zmk/keys.h>'' content then []
      else [''Missing required include: #include <dt-bindings/zmk/keys.h>'']) @
     (if substring_present (''compatible = '' @ CHR 0x22 # ''zmk,keymap'' @ [CHR 0x22]) content then []
      else [''Missing keymap node with compatible property'']) @
     (if layer_declared uni_word uni_space content then []
      else [''No layers found in keymap''])"
  using assms layer_count_zero_iff [of uni_word uni_space content]
  by (simp add: validate_keymap_syntax_def Let_def contains_iff del: contains.simps length_0_conv)

lemma contains_scenario3:
  "contains ''#include <behaviors.dtsi>'' scenario3_content"
  "contains ''#include <dt-bindings/zmk/keys.h>'' scenario3_content"
  "contains (''compatible = '' @ CHR 0x22 # ''zmk,keymap'' @ [CHR 0x22]) scenario3_content"
  by (simp_all add: scenario3_content_def scenario2_content_def)

lemma contains_scenario2:
  "\<not> contains ''#include <behaviors.dtsi>'' scenario2_content"
  "contains ''#include <dt-bindings/zmk/keys.h>'' scenario2_content"
  "contains (''compatible = '' @ CHR 0x22 # ''zmk,keymap'' @ [CHR 0x22]) scenario2_content"
  by (simp_all add: scenario2_content_def)

lemma layer_declared_scenario2: "layer_declared uni_word uni_space scenario2_content"
proof -
  let ?pre = "''#include <dt-bindings/zmk/keys.h> / { keymap { compatible = '' @ CHR 0x22 # ''zmk,keymap'' @
     CHR 0x22 # ''; ''"
  have "scenario2_content = ?pre @ ''default'' @ ''_layer'' @ '' '' @ ''{'' @ '' bindings = <&kp A>; }; }; };'' \<and>
      ''default'' \<noteq> [] \<and> (\<forall>c\<in>set ''default''. word_char uni_word c) \<and>
      (\<forall>c\<in>set '' ''. space_char uni_space c)"
    by (simp add: scenario2_content_def word_char_def ident_char_def space_char_def)
  then show ?thesis unfolding layer_declared_def by blast
qed

lemma layer_declared_scenario3: "layer_declared uni_word uni_space scenario3_content"
proof -
  from layer_declared_scenario2 [of uni_word uni_space]
  obtain pre w ws post where "scenario2_content = pre @ w @ ''_layer'' @ ws @ ''{'' @ post" "w \<noteq> []"
    "\<forall>c\<in>set w. word_char uni_word c" "\<forall>c\<in>set ws. space_char uni_space c"
    unfolding layer_declared_def by blast
  then have "scenario3_content = (''#include <behaviors.dtsi> '' @ pre) @ w @ ''_layer'' @ ws @ ''{'' @ post \<and>
    w \<noteq> [] \<and> (\<forall>c\<in>set w. word_char uni_word c) \<and> (\<forall>c\<in>set ws. space_char uni_space c)"
    by (simp add: scenario3_content_def)
  then show ?thesis unfolding layer_declared_def by blast
qed

lemma single_file_read: "single_file name content name = Inr content"
  by (simp add: single_file_def)

lemma validate_main_errors:
  assumes "2 \<le> length argv" and "validate_keymap_syntax uni_word uni_space fs (argv ! 1) = errors"
    and "errors \<noteq> []"
  shows "validate_main uni_word uni_space fs argv
           = (''Errors found:'' # map (\<lambda>error. ''  - '' @ error) errors, 0)"
  using assms by (simp add: validate_main_def Let_def)

section \<open>The formatter's script: proofs\<close>

lemma write_back_ok:
  "write_error w p = None \<Longrightarrow>
   files (write_back p text w) p = Inr text \<and>
   stdout (write_back p text w) = stdout w @ [''Formatted '' @ p]"
  by (simp add: write_back_def print_def)

lemma print_fields:
  "write_error (print line w) = write_error w" "files (print line w) = files w"
  "stdout (print line w) = stdout w @ [line]"
  by (simp_all add: print_def)

subsection \<open>Claims about one block\<close>

lemma take_drop_row: "take 10 (drop (10 * k) bl) = row_tokens bl k"
  by (simp add: row_tokens_def slice_def columns_def)

lemma length_grid_loop: "length (grid_loop bl 0 []) = (length bl + 9) div 10"
  by (simp add: grid_loop_0)

lemma nth_grid_loop:
  "k < (length bl + 9) div 10 \<Longrightarrow>
   grid_loop bl 0 [] ! k = join '' '' (map (ljust 12) (take 10 (drop (10 * k) bl)))"
  by (simp add: grid_loop_0 take_drop_row row_of_def)

lemma row_nonempty:
  "k < (length bl + 9) div 10 \<Longrightarrow> 0 < length (take 10 (drop (10 * k) bl))"
  by (auto simp: min_def)

lemma row_full:
  "Suc k < (length bl + 9) div 10 \<Longrightarrow> length (take 10 (drop (10 * k) bl)) = 10"
  by (auto simp: min_def)

lemma nth_row:
  "j < length (take 10 (drop (10 * k) bl)) \<Longrightarrow> take 10 (drop (10 * k) bl) ! j = bl ! (10 * k + j)"
  by auto

lemma concat_rows:
  "concat (map (\<lambda>k. take 10 (drop (10 * k) bl)) [0..<(length bl + 9) div 10]) = (bl :: string list)"
  using concat_row_tokens [of bl] by (simp add: take_drop_row row_tokens_def [abs_def])

lemma ljust_props:
  "length (ljust w t) = max w (length t) \<and> take (length t) (ljust w t) = t \<and>
   drop (length t) (ljust w t) = replicate (w - length t) (CHR '' '')"
  by (auto simp: ljust_def)

text \<open>
  Claim C2. For a block whose token list has \<open>n\<close> elements, \<^verbatim>\<open>format_bindings\<close> emits
  \<open>\<lceil>n / 10\<rceil> = (n + 9) div 10\<close> rows. Row \<open>k\<close> is made of the tokens \<open>10 * k\<close> to
  \<open>10 * k + 9\<close> of the list, in their order: it has between one and ten tokens, and ten
  unless it is the last row, and the rows together are the whole list. In a row each token
  is a field of at least 12 characters, the token first and spaces after it, and one space
  stands between two fields. The rows are joined by the continuation \<^const>\<open>row_sep\<close> inside
  \<^verbatim>\<open>bindings = <\<close> ... \<^verbatim>\<open>>\<close>.
\<close>

theorem format_bindings_grid:
  "(let bl = findall_tokens body; rows = grid_loop bl 0 []
    in format_bindings body
         = ''bindings = <'' @ row_sep @ join row_sep rows @ backslash # newline # ''    >'' \<and>
       length rows = (length bl + 9) div 10 \<and>
       concat (map (\<lambda>k. take 10 (drop (10 * k) bl)) [0..<length rows]) = bl \<and>
       (\<forall>k<length rows.
          rows ! k = join '' '' (map (ljust 12) (take 10 (drop (10 * k) bl))) \<and>
          0 < length (take 10 (drop (10 * k) bl)) \<and>
          length (take 10 (drop (10 * k) bl)) \<le> 10 \<and>
          (Suc k < length rows \<longrightarrow> length (take 10 (drop (10 * k) bl)) = 10) \<and>
          (\<forall>j<length (take 10 (drop (10 * k) bl)).
             take 10 (drop (10 * k) bl) ! j = bl ! (10 * k + j)))) \<and>
   (\<forall>t. length (ljust 12 t) = max 12 (length t) \<and> take (length t) (ljust 12 t) = t \<and>
        drop (length t) (ljust 12 t) = replicate (12 - length t) (CHR '' '')) \<and>
   (\<forall>f fs. join '' '' (f # fs) = f @ concat (map (\<lambda>g. '' '' @ g) fs))"
proof -
  let ?bl = "findall_tokens body"
  have 1: "format_bindings body
         = ''bindings = <'' @ row_sep @ join row_sep (grid_loop ?bl 0 []) @ backslash # newline # ''    >''"
    by (simp add: format_bindings_def Let_def)
  have 2: "concat (map (\<lambda>k. take 10 (drop (10 * k) ?bl)) [0..<length (grid_loop ?bl 0 [])]) = ?bl"
    by (simp only: length_grid_loop concat_rows)
  have 3: "\<forall>k<length (grid_loop ?bl 0 []).
          grid_loop ?bl 0 [] ! k = join '' '' (map (ljust 12) (take 10 (drop (10 * k) ?bl))) \<and>
          0 < length (take 10 (drop (10 * k) ?bl)) \<and>
          length (take 10 (drop (10 * k) ?bl)) \<le> 10 \<and>
          (Suc k < length (grid_loop ?bl 0 []) \<longrightarrow> length (take 10 (drop (10 * k) ?bl)) = 10) \<and>
          (\<forall>j<length (take 10 (drop (10 * k) ?bl)).
             take 10 (drop (10 * k) ?bl) ! j = ?bl ! (10 * k + j))"
    unfolding length_grid_loop
    using nth_grid_loop [of _ ?bl] row_nonempty [of _ ?bl] row_full [of _ ?bl] nth_row [of _ _ ?bl]
    by (intro allI impI conjI) simp_all
  have 4: "\<forall>t. length (ljust 12 t) = max 12 (length t) \<and> take (length t) (ljust 12 t) = t \<and>
        drop (length t) (ljust 12 t) = replicate (12 - length t) (CHR '' '')"
    using ljust_props by blast
  have 5: "\<forall>f fs. join '' '' (f # fs) = f @ concat (map (\<lambda>g. '' '' @ g) fs)"
    by (simp add: join_fields)
  show ?thesis
    unfolding Let_def using 1 2 3 4 5 length_grid_loop [of ?bl] by blast
qed

text \<open>A block of two tokens: one row, two fields of width 12.\<close>

lemma findall_example: "findall_tokens ''&kp A &mo_1'' = [''&kp'', ''&mo_1'']"
  by (simp add: match_token_def ident_char_def)

theorem format_bindings_grid_witness:
  "length (grid_loop (findall_tokens ''&kp A &mo_1'') 0 []) = 1 \<and>
   grid_loop (findall_tokens ''&kp A &mo_1'') 0 [] ! 0 = ''&kp          &mo_1       '' \<and>
   format_bindings ''&kp A &mo_1''
     = ''bindings = <'' @ row_sep @ ''&kp          &mo_1       '' @ backslash # newline # ''    >''"
proof -
  let ?rows = "grid_loop [''&kp'', ''&mo_1''] 0 []"
  note t = format_bindings_grid [of "''&kp A &mo_1''", unfolded findall_example Let_def]
  from t have len: "length ?rows = 1"
    by simp
  from t have "0 < length ?rows \<longrightarrow>
      ?rows ! 0 = join '' '' (map (ljust 12) (take 10 (drop (10 * 0) [''&kp'', ''&mo_1''])))"
    by blast
  with len have r0: "?rows ! 0 = ''&kp          &mo_1       ''"
    by (simp add: ljust_def eval_nat_numeral)
  from len have "?rows = [?rows ! 0]"
    by (cases ?rows) auto
  with r0 have rows: "?rows = [''&kp          &mo_1       '']"
    by simp
  from t have "format_bindings ''&kp A &mo_1''
      = ''bindings = <'' @ row_sep @ join row_sep ?rows @ backslash # newline # ''    >''"
    by blast
  with len r0 show ?thesis
    unfolding findall_example rows by simp
qed

text \<open>
  Claim C1. The tokens that \<^verbatim>\<open>&[a-zA-Z0-9_]+\<close> finds in the reformatted block are the
  tokens it finds in the body of the original block: the same list, so the same tokens,
  as often, in the same order. It holds for every body, matched or not.
\<close>

theorem format_bindings_preserves_tokens:
  "findall_tokens (format_bindings body) = findall_tokens body"
  by (rule findall_tokens_format_bindings)

theorem format_bindings_preserves_tokens_witness:
  "findall_tokens (format_bindings ''&kp A &mo_1'') = [''&kp'', ''&mo_1'']"
  using format_bindings_preserves_tokens [of "''&kp A &mo_1''"]
  unfolding findall_example
  by simp

text \<open>
  Claim C8. For a matched block whose body holds no token, the loop of
  \<^verbatim>\<open>format_bindings\<close> runs zero times, the join of the empty list of rows is the empty
  string, and the result is the block with the two continuations only; it holds no token.
  No step of \<^verbatim>\<open>format_bindings\<close> can raise (a \<^verbatim>\<open>range\<close> with step 10, slices, joins),
  so the model is a total function with no error value.
\<close>

theorem format_bindings_no_tokens:
  assumes "match_block s = Some (body, rest)" and "findall_tokens body = []"
  shows "grid_loop (findall_tokens body) 0 [] = [] \<and>
         format_bindings body
           = ''bindings = <'' @ backslash # newline # ''        '' @ backslash # newline # ''    >'' \<and>
         findall_tokens (format_bindings body) = []"
proof -
  have "grid_loop (findall_tokens body) 0 [] = []"
    using assms(2) by (simp add: grid_loop.simps)
  moreover from this have "format_bindings body
           = ''bindings = <'' @ backslash # newline # ''        '' @ backslash # newline # ''    >''"
    by (simp add: format_bindings_def Let_def row_sep_def)
  moreover have "findall_tokens (format_bindings body) = []"
    using assms(2) by (simp add: findall_tokens_format_bindings)
  ultimately show ?thesis by blast
qed

theorem format_bindings_no_tokens_witness:
  "match_block ''bindings = < A B >;'' = Some ('' A B '', '';'') \<and>
   findall_tokens '' A B '' = [] \<and>
   format_bindings '' A B ''
     = ''bindings = <'' @ backslash # newline # ''        '' @ backslash # newline # ''    >''"
proof -
  have m: "match_block ''bindings = < A B >;'' = Some ('' A B '', '';'')"
    by (simp add: match_block_def)
  have f: "findall_tokens '' A B '' = []"
    by (simp add: match_token_def)
  from format_bindings_no_tokens [OF m f] m f show ?thesis by simp
qed

subsection \<open>Claims about the substitution\<close>

text \<open>
  Claim C5. A text that holds no block (no part of it is \<^verbatim>\<open>bindings = <\<close>, a non-empty body
  without \<^verbatim>\<open>>\<close>, and \<^verbatim>\<open>>\<close>) is returned as it is. For every text, the scan cuts it into
  characters outside the matched blocks and matched blocks (\<^const>\<open>split_blocks\<close>): the
  pieces put together are the text, and the output is the same sequence with each
  outside character kept (\<^const>\<open>render\<close> and \<^const>\<open>source_of\<close> agree on it) and each block
  replaced by \<^const>\<open>format_bindings\<close> of its body. Every matched block has a non-empty body
  without \<^verbatim>\<open>>\<close>.
\<close>

theorem format_keymap_bindings_frame:
  "(\<not> has_block content \<longrightarrow> format_keymap_bindings content = content) \<and>
   concat (map source_of (split_blocks content)) = content \<and>
   format_keymap_bindings content = concat (map (render format_bindings) (split_blocks content)) \<and>
   (\<forall>c. render format_bindings (Outside c) = source_of (Outside c)) \<and>
   (\<forall>body. Block body \<in> set (split_blocks content) \<longrightarrow> body \<noteq> [] \<and> CHR ''>'' \<notin> set body)"
  using re_sub_block_no_block [of content format_bindings] concat_source_of [of content]
    re_sub_block_segments [of format_bindings content] split_blocks_Block [of _ content]
  unfolding format_keymap_bindings_def by simp

theorem format_keymap_bindings_frame_witness:
  "\<not> has_block ''#include <k.h>'' \<and>
   format_keymap_bindings ''#include <k.h>'' = ''#include <k.h>'' \<and>
   split_blocks ''x bindings = <&a>;'' = [Outside (CHR ''x''), Outside (CHR '' ''), Block ''&a'', Outside (CHR '';'')] \<and>
   format_keymap_bindings ''x bindings = <&a>;'' = ''x '' @ format_bindings ''&a'' @ '';''"
proof -
  have s1: "split_blocks ''#include <k.h>'' = map Outside ''#include <k.h>''"
    by (simp add: match_block_def)
  have n: "\<not> has_block ''#include <k.h>''"
    unfolding has_block_iff s1 by auto
  have s2: "split_blocks ''x bindings = <&a>;''
      = [Outside (CHR ''x''), Outside (CHR '' ''), Block ''&a'', Outside (CHR '';'')]"
    by (simp add: match_block_def)
  from format_keymap_bindings_frame [of "''#include <k.h>''"] n
  have "format_keymap_bindings ''#include <k.h>'' = ''#include <k.h>''" by blast
  moreover from format_keymap_bindings_frame [of "''x bindings = <&a>;''"]
  have "format_keymap_bindings ''x bindings = <&a>;''
      = concat (map (render format_bindings) (split_blocks ''x bindings = <&a>;''))" by blast
  ultimately show ?thesis using n s2 by simp
qed

text \<open>
  Claim C9. \<^const>\<open>format_keymap_bindings\<close> is idempotent. A reformatted block, whatever
  follows it, matches the block pattern again; the body found there holds the same tokens
  as the original body and is reformatted to the same block.
\<close>

theorem format_keymap_bindings_idempotent:
  "format_keymap_bindings (format_keymap_bindings content) = format_keymap_bindings content \<and>
   (\<exists>new_body.
      match_block (format_bindings body @ rest) = Some (new_body, rest) \<and>
      findall_tokens new_body = findall_tokens body \<and>
      format_bindings new_body = format_bindings body)"
proof -
  let ?gb = "grid_body (grid_loop (findall_tokens body) 0 [])"
  have "match_block (format_bindings body @ rest) = Some (?gb, rest)"
    by (rule match_block_format_bindings)
  moreover have "findall_tokens ?gb = findall_tokens body"
    using findall_tokens_grid_body_tail [of "[]" body] by simp
  moreover have "format_bindings ?gb = format_bindings body"
    by (rule format_bindings_again)
  ultimately show ?thesis
    using format_keymap_bindings_idem [of content] by blast
qed

theorem format_keymap_bindings_idempotent_witness:
  "format_keymap_bindings (format_keymap_bindings ''a bindings = <&kp A &mo_1> b'')
     = format_keymap_bindings ''a bindings = <&kp A &mo_1> b'' \<and>
   format_keymap_bindings ''a bindings = <&kp A &mo_1> b''
     = ''a '' @ format_bindings ''&kp A &mo_1'' @ '' b''"
proof -
  have "format_keymap_bindings ''a bindings = <&kp A &mo_1> b''
     = ''a '' @ format_bindings ''&kp A &mo_1'' @ '' b''"
    by (simp add: format_keymap_bindings_def match_block_def)
  with format_keymap_bindings_idempotent [of "''a bindings = <&kp A &mo_1> b''" "[]" "[]"]
  show ?thesis by blast
qed

text \<open>
  Claim C10, as amended. The pattern does not match at \<^verbatim>\<open>bindings = <>\<close>, whatever follows,
  and in no text does the scan find a block with an empty body. The construct passes
  through unchanged, the text before it and the text after it being formatted on their
  own, when the text before it does not end inside an open block, that is, when no
  \<^verbatim>\<open>bindings = <\<close> before it is still without its \<^verbatim>\<open>>\<close>.
\<close>

theorem empty_bindings_pass_through:
  "match_block (''bindings = <>'' @ post) = None \<and>
   Block [] \<notin> set (split_blocks content) \<and>
   format_keymap_bindings (''bindings = <>'' @ post) = ''bindings = <>'' @ format_keymap_bindings post \<and>
   (\<not> open_before pre \<longrightarrow>
      format_keymap_bindings (pre @ ''bindings = <>'' @ post)
        = format_keymap_bindings pre @ ''bindings = <>'' @ format_keymap_bindings post)"
  using match_block_empty_body [of post] re_sub_block_empty_body [of format_bindings post]
    split_blocks_Block [of "[]" content] format_keymap_bindings_around_empty [of pre post]
  unfolding format_keymap_bindings_def by blast

theorem empty_bindings_pass_through_witness:
  "\<not> open_before ''bindings = <&a>; '' \<and>
   format_keymap_bindings (''bindings = <&a>; '' @ ''bindings = <>'' @ '' y'')
     = format_bindings ''&a'' @ ''; bindings = <> y'' \<and>
   format_keymap_bindings ''bindings = <>'' = ''bindings = <>''"
proof -
  have n: "\<not> open_before ''bindings = <&a>; ''"
    unfolding open_before_iff by simp
  have p: "format_keymap_bindings ''bindings = <&a>; '' = format_bindings ''&a'' @ ''; ''"
    by (simp add: format_keymap_bindings_def match_block_def)
  have y: "format_keymap_bindings '' y'' = '' y''" "format_keymap_bindings [] = []"
    by (simp_all add: format_keymap_bindings_def match_block_def)
  from empty_bindings_pass_through [of "'' y''" "[]" "''bindings = <&a>; ''"] n
  have "format_keymap_bindings (''bindings = <&a>; '' @ ''bindings = <>'' @ '' y'')
      = format_keymap_bindings ''bindings = <&a>; '' @ ''bindings = <>'' @ format_keymap_bindings '' y''"
    by blast
  moreover from empty_bindings_pass_through [of "[]" "[]" "[]"]
  have "format_keymap_bindings (''bindings = <>'' @ []) = ''bindings = <>'' @ format_keymap_bindings []"
    by blast
  ultimately show ?thesis using n p y by simp
qed

text \<open>
  Without that condition the claim fails. In \<^verbatim>\<open>bindings = <x bindings = <> y\<close> the first
  \<^verbatim>\<open>bindings = <\<close> is open, its match runs up to the \<^verbatim>\<open>>\<close> of the construct, and the
  whole is rewritten into a grid without rows: the construct is in the input and not in
  the output.
\<close>

theorem empty_bindings_swallowed_counterexample:
  "format_keymap_bindings ''bindings = <x bindings = <> y''
     = ''bindings = <'' @ backslash # newline # ''        '' @ backslash # newline # ''    > y'' \<and>
   contains ''bindings = <>'' ''bindings = <x bindings = <> y'' \<and>
   \<not> contains ''bindings = <>'' (format_keymap_bindings ''bindings = <x bindings = <> y'')"
proof -
  have m: "match_block ''bindings = <x bindings = <> y'' = Some (''x bindings = <'', '' y'')"
    by (simp add: match_block_def)
  have t: "findall_tokens ''x bindings = <'' = []"
    by (simp add: match_token_def)
  have f: "format_bindings ''x bindings = <''
      = ''bindings = <'' @ backslash # newline # ''        '' @ backslash # newline # ''    >''"
    unfolding format_bindings_def t Let_def
    by (simp add: grid_loop.simps row_sep_def)
  have y: "re_sub_block format_bindings '' y'' = '' y''"
    by (simp add: match_block_def)
  have o: "format_keymap_bindings ''bindings = <x bindings = <> y''
     = ''bindings = <'' @ backslash # newline # ''        '' @ backslash # newline # ''    > y''"
    unfolding format_keymap_bindings_def re_sub_block_match [OF m] f y by simp
  show ?thesis unfolding o by simp
qed

subsection \<open>Claims about the validator\<close>

text \<open>
  Claim C3. For a file that can be read, the error list is the four diagnostics of the checks
  that fail, in the order of the checks: each check adds its one fixed text or nothing,
  whatever the other checks find. So the list is empty exactly when the three substrings
  are present and a layer is declared.
\<close>

theorem validate_keymap_syntax_checks:
  assumes "fs keymap_file = Inr content"
  shows "validate_keymap_syntax uni_word uni_space fs keymap_file =
     (if substring_present ''#include <behaviors.dtsi>'' content then []
      else [''Missing required include: #include <behaviors.dtsi>'']) @
     (if substring_present ''#include <dt-bindings/zmk/keys.h>'' content then []
      else [''Missing required include: #include <dt-bindings/zmk/keys.h>'']) @
     (if substring_present (''compatible = '' @ CHR 0x22 # ''zmk,keymap'' @ [CHR 0x22]) content then []
      else [''Missing keymap node with compatible property'']) @
     (if layer_declared uni_word uni_space content then []
      else [''No layers found in keymap'']) \<and>
   (validate_keymap_syntax uni_word uni_space fs keymap_file = [] \<longleftrightarrow>
      substring_present ''#include <behaviors.dtsi>'' content \<and>
      substring_present ''#include <dt-bindings/zmk/keys.h>'' content \<and>
      substring_present (''compatible = '' @ CHR 0x22 # ''zmk,keymap'' @ [CHR 0x22]) content \<and>
      layer_declared uni_word uni_space content)"
proof -
  note r = validate_keymap_syntax_readable [where fs = fs and keymap_file = keymap_file, OF assms, of uni_word uni_space]
  have "validate_keymap_syntax uni_word uni_space fs keymap_file = [] \<longleftrightarrow>
      substring_present ''#include <behaviors.dtsi>'' content \<and>
      substring_present ''#include <dt-bindings/zmk/keys.h>'' content \<and>
      substring_present (''compatible = '' @ CHR 0x22 # ''zmk,keymap'' @ [CHR 0x22]) content \<and>
      layer_declared uni_word uni_space content"
    unfolding r by (simp split: if_splits)
  with r show ?thesis by blast
qed

theorem validate_keymap_syntax_checks_witness:
  "single_file ''k.keymap'' scenario3_content ''k.keymap'' = Inr scenario3_content \<and>
   validate_keymap_syntax no_unicode no_unicode (single_file ''k.keymap'' scenario3_content) ''k.keymap'' = [] \<and>
   single_file ''k.keymap'' scenario2_content ''k.keymap'' = Inr scenario2_content \<and>
   validate_keymap_syntax no_unicode no_unicode (single_file ''k.keymap'' scenario2_content) ''k.keymap''
     = [''Missing required include: #include <behaviors.dtsi>'']"
proof -
  note t3 = validate_keymap_syntax_checks [where fs = "single_file ''k.keymap'' scenario3_content"
      and keymap_file = "''k.keymap''" and uni_word = no_unicode and uni_space = no_unicode,
      OF single_file_read]
  note t2 = validate_keymap_syntax_checks [where fs = "single_file ''k.keymap'' scenario2_content"
      and keymap_file = "''k.keymap''" and uni_word = no_unicode and uni_space = no_unicode,
      OF single_file_read]
  from t3 have "validate_keymap_syntax no_unicode no_unicode (single_file ''k.keymap'' scenario3_content) ''k.keymap'' = []"
    using contains_scenario3 [unfolded contains_iff] layer_declared_scenario3 by blast
  moreover from t2 have "validate_keymap_syntax no_unicode no_unicode (single_file ''k.keymap'' scenario2_content) ''k.keymap''
     = [''Missing required include: #include <behaviors.dtsi>'']"
    using contains_scenario2 [unfolded contains_iff] layer_declared_scenario2 by simp
  ultimately show ?thesis by (simp add: single_file_read)
qed

text \<open>
  Claim C6, as amended. For a file without \<^verbatim>\<open>#include <behaviors.dtsi>\<close> that holds the other
  three elements, the script prints the header \<^verbatim>\<open>Errors found:\<close> first and then one line,
  the diagnostic of the missing include behind \<^verbatim>\<open>  - \<close>, and ends with exit status 0.
\<close>

theorem validate_main_missing_include:
  assumes "2 \<le> length argv" and "fs (argv ! 1) = Inr content"
    and "\<not> substring_present ''#include <behaviors.dtsi>'' content"
    and "substring_present ''#include <dt-bindings/zmk/keys.h>'' content"
    and "substring_present (''compatible = '' @ CHR 0x22 # ''zmk,keymap'' @ [CHR 0x22]) content"
    and "layer_declared uni_word uni_space content"
  shows "validate_main uni_word uni_space fs argv
           = ([''Errors found:'', ''  - Missing required include: #include <behaviors.dtsi>''], 0)"
proof -
  have "validate_keymap_syntax uni_word uni_space fs (argv ! 1)
      = [''Missing required include: #include <behaviors.dtsi>'']"
    using validate_keymap_syntax_readable [where fs = fs and keymap_file = "argv ! 1", OF assms(2),
        of uni_word uni_space] assms(3-6)
    by simp
  from validate_main_errors [OF assms(1) this] show ?thesis by simp
qed

theorem validate_main_missing_include_witness:
  "validate_main no_unicode no_unicode (single_file ''k.keymap'' scenario2_content)
     [''validate_keymap.py'', ''k.keymap'']
     = ([''Errors found:'', ''  - Missing required include: #include <behaviors.dtsi>''], 0)"
proof -
  have l: "2 \<le> length [''validate_keymap.py'', ''k.keymap'']" by simp
  have r: "single_file ''k.keymap'' scenario2_content ([''validate_keymap.py'', ''k.keymap''] ! 1)
      = Inr scenario2_content"
    by (simp add: single_file_def)
  show ?thesis
    by (rule validate_main_missing_include [where content = scenario2_content
         and fs = "single_file ''k.keymap'' scenario2_content"
         and argv = "[''validate_keymap.py'', ''k.keymap'']"
         and uni_word = no_unicode and uni_space = no_unicode, OF l r
         contains_scenario2 [unfolded contains_iff] layer_declared_scenario2])
qed

text \<open>The order in which the claim puts the two lines, the diagnostic before the header,
  is not the order of the script: on the file of scenario 2 the header is printed first.\<close>

theorem validate_main_order_counterexample:
  "fst (validate_main no_unicode no_unicode (single_file ''k.keymap'' scenario2_content)
     [''validate_keymap.py'', ''k.keymap''])
     = [''Errors found:'', ''  - Missing required include: #include <behaviors.dtsi>''] \<and>
   fst (validate_main no_unicode no_unicode (single_file ''k.keymap'' scenario2_content)
     [''validate_keymap.py'', ''k.keymap''])
     \<noteq> [''  - Missing required include: #include <behaviors.dtsi>'', ''Errors found:'']"
proof -
  have l: "2 \<le> length [''validate_keymap.py'', ''k.keymap'']" by simp
  have r: "single_file ''k.keymap'' scenario2_content ([''validate_keymap.py'', ''k.keymap''] ! 1)
      = Inr scenario2_content"
    by (simp add: single_file_def)
  have "validate_keymap_syntax no_unicode no_unicode (single_file ''k.keymap'' scenario2_content)
          ([''validate_keymap.py'', ''k.keymap''] ! 1)
      = [''Missing required include: #include <behaviors.dtsi>'']"
    using validate_keymap_syntax_readable [where fs = "single_file ''k.keymap'' scenario2_content"
        and keymap_file = "[''validate_keymap.py'', ''k.keymap''] ! 1", OF r, of no_unicode no_unicode]
      contains_scenario2 [unfolded contains_iff] layer_declared_scenario2 [of no_unicode no_unicode]
    by simp
  from validate_main_errors [OF l this] show ?thesis by simp
qed

text \<open>
  Claim C7. When the file cannot be opened or read, the handler returns one diagnostic,
  \<^verbatim>\<open>Error reading file:\<close> and the message of the exception; none of the four diagnostics of
  the content checks is in the list. The script prints it as it prints the others, under
  the header, and ends with exit status 0.
\<close>

theorem validate_keymap_syntax_unreadable:
  assumes "2 \<le> length argv" and "fs (argv ! 1) = Inl e"
  shows "validate_keymap_syntax uni_word uni_space fs (argv ! 1) = [''Error reading file: '' @ e] \<and>
         ''Missing required include: #include <behaviors.dtsi>''
            \<notin> set (validate_keymap_syntax uni_word uni_space fs (argv ! 1)) \<and>
         ''Missing required include: #include <dt-bindings/zmk/keys.h>''
            \<notin> set (validate_keymap_syntax uni_word uni_space fs (argv ! 1)) \<and>
         ''Missing keymap node with compatible property''
            \<notin> set (validate_keymap_syntax uni_word uni_space fs (argv ! 1)) \<and>
         ''No layers found in keymap''
            \<notin> set (validate_keymap_syntax uni_word uni_space fs (argv ! 1)) \<and>
         validate_main uni_word uni_space fs argv
           = ([''Errors found:'', ''  - Error reading file: '' @ e], 0)"
proof -
  have v: "validate_keymap_syntax uni_word uni_space fs (argv ! 1) = [''Error reading file: '' @ e]"
    using assms(2) by (simp add: validate_keymap_syntax_def)
  have m: "validate_main uni_word uni_space fs argv
           = ([''Errors found:'', ''  - Error reading file: '' @ e], 0)"
    using validate_main_errors [OF assms(1) v] by simp
  show ?thesis unfolding v using m by simp
qed

theorem validate_keymap_syntax_unreadable_witness:
  "single_file ''k.keymap'' scenario3_content ''missing.keymap''
     = Inl ''[Errno 2] No such file or directory: missing.keymap'' \<and>
   validate_keymap_syntax no_unicode no_unicode (single_file ''k.keymap'' scenario3_content) ''missing.keymap''
     = [''Error reading file: [Errno 2] No such file or directory: missing.keymap''] \<and>
   validate_main no_unicode no_unicode (single_file ''k.keymap'' scenario3_content)
       [''validate_keymap.py'', ''missing.keymap'']
     = ([''Errors found:'', ''  - Error reading file: [Errno 2] No such file or directory: missing.keymap''], 0)"
proof -
  have l: "2 \<le> length [''validate_keymap.py'', ''missing.keymap'']" by simp
  have r: "single_file ''k.keymap'' scenario3_content ([''validate_keymap.py'', ''missing.keymap''] ! 1)
      = Inl ''[Errno 2] No such file or directory: missing.keymap''"
    by (simp add: single_file_def)
  from validate_keymap_syntax_unreadable [where fs = "single_file ''k.keymap'' scenario3_content"
      and argv = "[''validate_keymap.py'', ''missing.keymap'']", OF l r, of no_unicode no_unicode] r
  show ?thesis by simp
qed

text \<open>
  Claim C4. For a file that can be read and written: when the external formatter ends with
  a status other than 0, the text written is the grid-formatted text; when the program is
  not found, the note is printed and the grid-formatted text is written; the standard
  output of the external formatter is written only when its status is 0.
\<close>

theorem format_with_clang_and_grid_filter:
  assumes "files w file_path = Inr content" and "write_error w file_path = None"
  shows "(\<forall>returncode out.
            clang_format w (format_keymap_bindings content) = Exited returncode out \<longrightarrow>
            files (format_with_clang_and_grid w file_path) file_path
              = Inr (if returncode = 0 then out else format_keymap_bindings content) \<and>
            stdout (format_with_clang_and_grid w file_path)
              = stdout w @ [''Formatted '' @ file_path]) \<and>
         (clang_format w (format_keymap_bindings content) = Not_Found \<longrightarrow>
            files (format_with_clang_and_grid w file_path) file_path
              = Inr (format_keymap_bindings content) \<and>
            stdout (format_with_clang_and_grid w file_path)
              = stdout w @ [''clang-format not found, using custom formatting only'',
                            ''Formatted '' @ file_path])"
proof -
  let ?g = "format_keymap_bindings content"
  have a: "files (format_with_clang_and_grid w file_path) file_path
              = Inr (if returncode = 0 then out else ?g) \<and>
           stdout (format_with_clang_and_grid w file_path) = stdout w @ [''Formatted '' @ file_path]"
    if "clang_format w ?g = Exited returncode out" for returncode out
    using that assms write_back_ok [OF assms(2)]
    by (simp add: format_with_clang_and_grid_def Let_def)
  have b: "files (format_with_clang_and_grid w file_path) file_path = Inr ?g \<and>
           stdout (format_with_clang_and_grid w file_path)
              = stdout w @ [''clang-format not found, using custom formatting only'',
                            ''Formatted '' @ file_path]"
    if "clang_format w ?g = Not_Found"
    using that assms
      write_back_ok [of "print ''clang-format not found, using custom formatting only'' w" file_path ?g]
    by (simp add: format_with_clang_and_grid_def Let_def print_fields)
  from a b show ?thesis by blast
qed

theorem format_with_clang_and_grid_filter_witness:
  "files (example_world failing_clang) ''k.keymap'' = Inr ''bindings = <>;'' \<and>
   write_error (example_world failing_clang) ''k.keymap'' = None \<and>
   files (format_with_clang_and_grid (example_world failing_clang) ''k.keymap'') ''k.keymap''
     = Inr ''bindings = <>;'' \<and>
   files (format_with_clang_and_grid (example_world upper_clang) ''k.keymap'') ''k.keymap''
     = Inr ''// formattedbindings = <>;'' \<and>
   files (format_with_clang_and_grid (example_world absent_clang) ''k.keymap'') ''k.keymap''
     = Inr ''bindings = <>;'' \<and>
   stdout (format_with_clang_and_grid (example_world absent_clang) ''k.keymap'')
     = [''clang-format not found, using custom formatting only'', ''Formatted k.keymap'']"
proof -
  have g: "format_keymap_bindings ''bindings = <>;'' = ''bindings = <>;''"
    by (simp add: format_keymap_bindings_def match_block_def)
  have f: "files (example_world clang) ''k.keymap'' = Inr ''bindings = <>;''"
    and e: "write_error (example_world clang) ''k.keymap'' = None"
    and c: "clang_format (example_world clang) = clang"
    and s: "stdout (example_world clang) = []" for clang
    by (simp_all add: example_world_def single_file_def writable_def)
  note t = format_with_clang_and_grid_filter [OF f e, unfolded g c s]
  have 1: "files (format_with_clang_and_grid (example_world failing_clang) ''k.keymap'') ''k.keymap''
     = Inr ''bindings = <>;''"
    using t [of failing_clang] by (simp add: failing_clang_def)
  have 2: "files (format_with_clang_and_grid (example_world upper_clang) ''k.keymap'') ''k.keymap''
     = Inr ''// formattedbindings = <>;''"
    using t [of upper_clang] by (simp add: upper_clang_def)
  have 3: "files (format_with_clang_and_grid (example_world absent_clang) ''k.keymap'') ''k.keymap''
     = Inr ''bindings = <>;'' \<and>
   stdout (format_with_clang_and_grid (example_world absent_clang) ''k.keymap'')
     = [''clang-format not found, using custom formatting only'', ''Formatted k.keymap'']"
    using t [of absent_clang] by (simp add: absent_clang_def)
  from 1 2 3 f e show ?thesis by simp
qed

end
